theory Spec2Isabelle
  imports Complex_Main "HOL-Library.Log_Nat"
begin

section \<open>Numbers\<close>

text \<open>
  The script computes with JavaScript numbers. A value that \<open>parseFloat\<close> returns is
  modelled as a \<open>real option\<close>: \<open>None\<close> is NaN (and \<open>undefined\<close> or \<open>null\<close> where the
  script only tests them with \<open>isNaN\<close> or for truthiness), \<open>Some v\<close> is the number \<open>v\<close>.
  The quantities the scoring code derives by division can also be infinite, since JavaScript
  divides by zero without raising; they are values of \<open>xnum\<close>. Only the positive infinity is
  needed, because every such quotient goes through \<open>Math.abs\<close>.
\<close>

datatype xnum = NaN | Fin real | Inf

text \<open>
  A finite number of the script is a double, and every arithmetic operation gives the double
  nearest to the exact result, a tie going to the even significand. \<open>quantum x\<close> is the distance
  between neighbouring doubles at the magnitude of \<open>x\<close>: with \<open>2 ^ e \<le> \<bar>x\<bar> < 2 ^ (e + 1)\<close>
  it is \<open>2 ^ (e - 52)\<close>, and \<open>2 ^ -1074\<close> below the smallest normal number \<open>2 ^ -1022\<close>.
  \<open>rnd x\<close> is the multiple of the quantum nearest to \<open>x\<close>. A result beyond the largest
  double, which the script turns into an infinity, is outside the model.
\<close>

definition roundEven :: "real \<Rightarrow> int" where
  "roundEven y =
     (if y - real_of_int \<lfloor>y\<rfloor> < 1 / 2 then \<lfloor>y\<rfloor>
      else if y - real_of_int \<lfloor>y\<rfloor> > 1 / 2 then \<lfloor>y\<rfloor> + 1
      else if even \<lfloor>y\<rfloor> then \<lfloor>y\<rfloor> else \<lfloor>y\<rfloor> + 1)"

definition quantum :: "real \<Rightarrow> real" where
  "quantum x =
     (if 1 \<le> \<bar>x\<bar> then 2 ^ (floorlog 2 (nat \<lfloor>\<bar>x\<bar>\<rfloor>) - 1) / 2 ^ 52
      else 1 / 2 ^ (min (floorlog 2 (nat (\<lceil>1 / \<bar>x\<bar>\<rceil> - 1))) 1022 + 52))"

definition rnd :: "real \<Rightarrow> real" where
  "rnd x = real_of_int (roundEven (x / quantum x)) * quantum x"

text \<open>The four operations on doubles.\<close>

definition fadd :: "real \<Rightarrow> real \<Rightarrow> real" where
  "fadd a b = rnd (a + b)"

definition fsub :: "real \<Rightarrow> real \<Rightarrow> real" where
  "fsub a b = rnd (a - b)"

definition fmul :: "real \<Rightarrow> real \<Rightarrow> real" where
  "fmul a b = rnd (a * b)"

definition fdiv :: "real \<Rightarrow> real \<Rightarrow> real" where
  "fdiv a b = rnd (a / b)"

text \<open>\<open>a > b\<close> on such values: any comparison with NaN is false.\<close>

fun xgt :: "xnum \<Rightarrow> xnum \<Rightarrow> bool" where
  "xgt (Fin a) (Fin b) = (a > b)"
| "xgt Inf (Fin b) = True"
| "xgt _ _ = False"

text \<open>Division and multiplication by a positive constant, and addition.\<close>

fun xdivc :: "xnum \<Rightarrow> real \<Rightarrow> xnum" where
  "xdivc (Fin a) c = Fin (fdiv a c)"
| "xdivc x c = x"

fun xmulc :: "xnum \<Rightarrow> real \<Rightarrow> xnum" where
  "xmulc (Fin a) c = Fin (fmul a c)"
| "xmulc x c = x"

definition xadd :: "xnum \<Rightarrow> xnum \<Rightarrow> xnum" where
  "xadd a b =
     (case a of
        NaN \<Rightarrow> NaN
      | Fin x \<Rightarrow> (case b of NaN \<Rightarrow> NaN | Fin y \<Rightarrow> Fin (fadd x y) | Inf \<Rightarrow> Inf)
      | Inf \<Rightarrow> (case b of NaN \<Rightarrow> NaN | _ \<Rightarrow> Inf))"

text \<open>
  The decimal that the text \<open>x.toFixed(k)\<close> denotes: the one with \<open>k\<close> fraction digits nearest
  to the exact value of the double \<open>x\<close>, a tie going away from zero (the method rounds the
  magnitude, taking the larger candidate, and restores the sign). \<open>parseFloat\<close> of that text
  is the double nearest to the decimal, \<open>rnd (toFixed k x)\<close>.
\<close>

definition toFixed :: "nat \<Rightarrow> real \<Rightarrow> real" where
  "toFixed k x = sgn x * real_of_int \<lfloor>\<bar>x\<bar> * 10 ^ k + 1 / 2\<rfloor> / 10 ^ k"

text \<open>Truthiness of a number: NaN, \<open>null\<close> and zero are falsy.\<close>

definition truthy :: "real option \<Rightarrow> bool" where
  "truthy v = (case v of None \<Rightarrow> False | Some x \<Rightarrow> x \<noteq> 0)"

text \<open>\<open>a || b\<close> on numbers.\<close>

definition orNum :: "real option \<Rightarrow> real option \<Rightarrow> real option" where
  "orNum a b = (if truthy a then a else b)"

section \<open>Strings\<close>

text \<open>\<open>l.startsWith(p)\<close>, \<open>l.includes(p)\<close> and \<open>l.split(c)\<close> for a one-character separator.\<close>

fun startsWith :: "string \<Rightarrow> string \<Rightarrow> bool" where
  "startsWith l [] = True"
| "startsWith [] (p # ps) = False"
| "startsWith (x # xs) (p # ps) = (x = p \<and> startsWith xs ps)"

fun includesStr :: "string \<Rightarrow> string \<Rightarrow> bool" where
  "includesStr [] p = (p = [])"
| "includesStr (x # xs) p = (startsWith (x # xs) p \<or> includesStr xs p)"

fun splitOn :: "char \<Rightarrow> string \<Rightarrow> string list" where
  "splitOn c [] = [[]]"
| "splitOn c (x # xs) =
     (if x = c then [] # splitOn c xs
      else (case splitOn c xs of [] \<Rightarrow> [[x]] | p # ps \<Rightarrow> (x # p) # ps))"

section \<open>Configuration\<close>

definition STRONG_BUY :: real where "STRONG_BUY = 7"
definition GOOD_BUY :: real where "GOOD_BUY = 5"
definition MODERATE_BUY :: real where "MODERATE_BUY = 3"

text \<open>The weights are the doubles that the literals \<open>0.4\<close> and \<open>0.3\<close> denote.\<close>

definition PRICE_DIP :: real where "PRICE_DIP = rnd (4 / 10)"
definition TREND_STRENGTH :: real where "TREND_STRENGTH = rnd (3 / 10)"
definition MA_ALIGNMENT :: real where "MA_ALIGNMENT = rnd (3 / 10)"

text \<open>\<open>fundsToTrack\<close>, in the order of its keys: display name and AMFI code.\<close>

definition fundsToTrack :: "(string \<times> string) list" where
  "fundsToTrack =
     [(''ICICI Pru BA'', ''120377''),
      (''HDFC Mid-Cap'', ''118989''),
      (''Nippon Small Cap'', ''118778''),
      (''UTI Nifty 50'', ''120716''),
      (''PPFAS Flexi Cap'', ''122639'')]"

definition fundNames :: "string list" where
  "fundNames = map fst fundsToTrack"

definition maPeriods :: "nat list" where
  "maPeriods = [30, 50, 200]"

section \<open>Signals and the opportunity score\<close>

text \<open>
  The alerts of one fund. A dip alert carries the two numbers its message prints, the
  opportunity score and the dip percentage.
\<close>

datatype tier = Exceptional | Strong | Moderate

datatype alert = Dip tier xnum xnum | GoldenCross | DeathCross | LongTermDowntrend

text \<open>
  \<open>Math.abs(parseFloat(((latestNav - ma) / ma * 100).toFixed(2)))\<close>. A zero average makes
  the quotient infinite, or NaN when the value is zero too.
\<close>

definition diffValue :: "real \<Rightarrow> real \<Rightarrow> xnum" where
  "diffValue latestNav ma =
     (if ma = 0 then (if latestNav = 0 then NaN else Inf)
      else Fin \<bar>rnd (toFixed 2 (fmul (fdiv (fsub latestNav ma) ma) 100))\<bar>)"

text \<open>
  One round of the loop over the periods that tracks the largest dip and counts the averages
  the value is above. The state is \<open>(maxDipPercentage, maAlignmentScore)\<close>.
\<close>

definition dipStep :: "real \<Rightarrow> (nat \<Rightarrow> real option) \<Rightarrow> xnum \<times> nat \<Rightarrow> nat \<Rightarrow> xnum \<times> nat" where
  "dipStep latestNav currentFundMAs st period =
     (case currentFundMAs period of
        None \<Rightarrow> st
      | Some ma \<Rightarrow>
          (let d = diffValue latestNav ma;
               maxDip = (if latestNav < ma \<and> xgt d (fst st) then d else fst st);
               a30 = (if period = 30 \<and> latestNav > ma then snd st + 1 else snd st);
               a50 = (if period = 50 \<and> latestNav > ma then a30 + 1 else a30);
               a200 = (if period = 200 \<and> latestNav > ma then a50 + 1 else a50)
           in (maxDip, a200)))"

definition dipScan :: "real \<Rightarrow> (nat \<Rightarrow> real option) \<Rightarrow> xnum \<times> nat" where
  "dipScan latestNav currentFundMAs = foldl (dipStep latestNav currentFundMAs) (Fin 0, 0) maPeriods"

definition maxDipPercentage :: "real \<Rightarrow> (nat \<Rightarrow> real option) \<Rightarrow> xnum" where
  "maxDipPercentage latestNav currentFundMAs = fst (dipScan latestNav currentFundMAs)"

definition maAlignmentScore :: "real \<Rightarrow> (nat \<Rightarrow> real option) \<Rightarrow> nat" where
  "maAlignmentScore latestNav currentFundMAs = snd (dipScan latestNav currentFundMAs)"

text \<open>
  \<open>Math.min(Math.abs((ma30 - ma50) / ma50 * 100) / 5, 1)\<close> when both averages are numbers,
  else 0. With a zero 50-day average the quotient is infinite and the minimum is 1, unless
  the 30-day average is zero as well: then it is NaN.
\<close>

definition trendScore :: "(nat \<Rightarrow> real option) \<Rightarrow> xnum" where
  "trendScore currentFundMAs =
     (case (currentFundMAs 30, currentFundMAs 50) of
        (Some ma30, Some ma50) \<Rightarrow>
          (if ma50 = 0 then (if ma30 = 0 then NaN else Fin 1)
           else Fin (min (fdiv \<bar>fmul (fdiv (fsub ma30 ma50) ma50) 100\<bar> 5) 1))
      | _ \<Rightarrow> Fin 0)"

text \<open>The score as a function of its three factors, and of the inputs of the evaluation.\<close>

definition scoreOf :: "xnum \<Rightarrow> xnum \<Rightarrow> nat \<Rightarrow> xnum" where
  "scoreOf maxDip trend alignment =
     xmulc (xadd (xadd (xmulc (xdivc maxDip 10) PRICE_DIP) (xmulc trend TREND_STRENGTH))
                 (Fin (fmul (fdiv (real alignment) 3) MA_ALIGNMENT))) 100"

definition opportunityScore :: "real \<Rightarrow> (nat \<Rightarrow> real option) \<Rightarrow> xnum" where
  "opportunityScore latestNav currentFundMAs =
     scoreOf (maxDipPercentage latestNav currentFundMAs) (trendScore currentFundMAs)
       (maAlignmentScore latestNav currentFundMAs)"

text \<open>The chain of strict comparisons that picks the dip tier.\<close>

definition dipTier :: "xnum \<Rightarrow> tier option" where
  "dipTier maxDip =
     (if xgt maxDip (Fin STRONG_BUY) then Some Exceptional
      else if xgt maxDip (Fin GOOD_BUY) then Some Strong
      else if xgt maxDip (Fin MODERATE_BUY) then Some Moderate
      else None)"

definition tierBg :: "tier \<Rightarrow> string" where
  "tierBg t = (case t of Exceptional \<Rightarrow> ''#ff9999'' | Strong \<Rightarrow> ''#ffcccc'' | Moderate \<Rightarrow> ''#ffeecc'')"

text \<open>The crossover test; it yields at most one alert, and says whether it was the death cross.\<close>

definition crossAlerts :: "(nat \<Rightarrow> real option) \<Rightarrow> (nat \<Rightarrow> real option) \<Rightarrow> alert list" where
  "crossAlerts currentFundMAs previousFundMAs =
     (case (currentFundMAs 30, currentFundMAs 50, previousFundMAs 30, previousFundMAs 50) of
        (Some c30, Some c50, Some p30, Some p50) \<Rightarrow>
          (if c30 > c50 \<and> p30 \<le> p50 then [GoldenCross]
           else if c30 < c50 \<and> p30 \<ge> p50 then [DeathCross]
           else [])
      | _ \<Rightarrow> [])"

definition longTermAlerts :: "real \<Rightarrow> (nat \<Rightarrow> real option) \<Rightarrow> alert list" where
  "longTermAlerts latestNav currentFundMAs =
     (case currentFundMAs 200 of
        Some ma200 \<Rightarrow> (if latestNav < ma200 then [LongTermDowntrend] else [])
      | None \<Rightarrow> [])"

text \<open>A warning turns a cell that is still white to orange and leaves any other colour.\<close>

definition warnBg :: "string \<Rightarrow> string" where
  "warnBg bg = (if bg = ''#ffffff'' then ''#ffeecc'' else bg)"

record signal =
  alerts :: "alert list"
  bg :: string

text \<open>
  The analysis of one fund once its averages are known: nothing at all when the latest value is
  NaN, else the dip alert, the crossover alert and the long-term warning, in this order.
\<close>

definition evaluate :: "real option \<Rightarrow> (nat \<Rightarrow> real option) \<Rightarrow> (nat \<Rightarrow> real option) \<Rightarrow> signal" where
  "evaluate latestNavOpt currentFundMAs previousFundMAs =
     (case latestNavOpt of
        None \<Rightarrow> \<lparr>alerts = [], bg = ''#ffffff''\<rparr>
      | Some latestNav \<Rightarrow>
          (let maxDip = maxDipPercentage latestNav currentFundMAs;
               score = opportunityScore latestNav currentFundMAs;
               dips = (case dipTier maxDip of None \<Rightarrow> [] | Some t \<Rightarrow> [Dip t score maxDip]);
               bg1 = (case dipTier maxDip of None \<Rightarrow> ''#ffffff'' | Some t \<Rightarrow> tierBg t);
               cross = crossAlerts currentFundMAs previousFundMAs;
               bg2 = (if cross = [DeathCross] then warnBg bg1 else bg1);
               long = longTermAlerts latestNav currentFundMAs;
               bg3 = (if long = [] then bg2 else warnBg bg2)
           in \<lparr>alerts = dips @ cross @ long, bg = bg3\<rparr>))"

section \<open>Calendar\<close>

text \<open>
  A \<open>Date\<close> is used through two observers only: \<open>getDay()\<close>, the day of the week in the
  script's time zone, and the text \<open>Utilities.formatDate\<close> gives for it in GMT+5:30 with the
  pattern \<open>yyyy-MM-dd\<close>. The clock and the calendar arithmetic of \<open>setDate\<close> belong to
  the environment.
\<close>

record date =
  getDay :: nat
  ymd :: string

definition getMarketHolidays :: "string list" where
  "getMarketHolidays =
     [''2025-01-26'', ''2025-03-29'', ''2025-04-14'', ''2025-05-01'', ''2025-08-15'',
      ''2025-10-02'', ''2025-10-24'', ''2025-12-25'',
      ''2026-01-26'', ''2026-03-03'', ''2026-03-26'', ''2026-03-31'', ''2026-04-03'',
      ''2026-04-14'', ''2026-05-01'', ''2026-05-28'', ''2026-06-26'', ''2026-09-14'',
      ''2026-10-02'', ''2026-10-20'', ''2026-11-10'', ''2026-11-24'', ''2026-12-25'']"

definition isWeekendOrHoliday :: "date \<Rightarrow> bool" where
  "isWeekendOrHoliday d = (getDay d = 0 \<or> getDay d = 6 \<or> ymd d \<in> set getMarketHolidays)"

section \<open>The environment of a run\<close>

text \<open>
  \<open>UrlFetchApp.fetch\<close> with \<open>muteHttpExceptions\<close> either throws (the request could not be
  made) or returns a response code and a body. A run sees the provider, the clock and the
  engine's \<open>parseFloat\<close> on text through this record: \<open>daysAgo i\<close> is the date that
  \<open>new Date()\<close> followed by \<open>setDate(getDate() - i)\<close> gives, \<open>minusDays d k\<close> the same
  from a stored date.
\<close>

datatype fetch_result = FetchThrows | Response nat string

record env =
  daysAgo :: "nat \<Rightarrow> date"
  minusDays :: "date \<Rightarrow> nat \<Rightarrow> date"
  fetch :: "date \<Rightarrow> fetch_result"
  parseFloat :: "string \<Rightarrow> real option"

text \<open>\<open>response.getResponseCode() === 200 && content && !content.includes("No data found")\<close>\<close>

definition validResponse :: "nat \<Rightarrow> string \<Rightarrow> bool" where
  "validResponse code content =
     (code = 200 \<and> content \<noteq> [] \<and> \<not> includesStr content ''No data found'')"

section \<open>The sheet\<close>

text \<open>
  A cell holds a number, a text, or the joined messages of an analysis (kept as the list of
  alerts they came from). A data row is its date, in column 0, and the cells of the columns
  from 1 on. The sheet is the header row and the data rows below it; formatting is not
  modelled.
\<close>

datatype cell = Num real | Str string | Msg "alert list"

record row =
  rdate :: date
  cells :: "cell list"

record sheet =
  header :: "string list"
  rows :: "row list"

text \<open>
  \<open>r[k]\<close> for a column \<open>k\<close> of a row read from the sheet. An empty cell reads as \<open>""\<close>;
  so does column 0 here, which holds the date and is never read as a value.
\<close>

definition cellAt :: "row \<Rightarrow> nat \<Rightarrow> cell" where
  "cellAt r k = (if 0 < k \<and> k \<le> length (cells r) then cells r ! (k - 1) else Str [])"

text \<open>\<open>parseFloat\<close> of a cell: a number is itself, a message starts with no digit.\<close>

definition pfCell :: "(string \<Rightarrow> real option) \<Rightarrow> cell \<Rightarrow> real option" where
  "pfCell pf c = (case c of Num v \<Rightarrow> Some v | Str s \<Rightarrow> pf s | Msg m \<Rightarrow> None)"

definition appendRow :: "sheet \<Rightarrow> row \<Rightarrow> sheet" where
  "appendRow s r = s\<lparr>rows := rows s @ [r]\<rparr>"

text \<open>
  \<open>sheet.deleteRow(sheet.getLastRow())\<close>: the last row that has content goes; below a lone
  header that is the header itself.
\<close>

definition deleteLastRow :: "sheet \<Rightarrow> sheet" where
  "deleteLastRow s = (if rows s = [] then s\<lparr>header := []\<rparr> else s\<lparr>rows := butlast (rows s)\<rparr>)"

text \<open>Writing \<open>vals\<close> into a row from column \<open>k\<close> (at least 1) on; the row grows if it has to.\<close>

definition setCellsFrom :: "nat \<Rightarrow> cell list \<Rightarrow> row \<Rightarrow> row" where
  "setCellsFrom k vals r =
     (let cs = cells r @ replicate (k - 1 + length vals - length (cells r)) (Str [])
      in r\<lparr>cells := take (k - 1) cs @ vals @ drop (k - 1 + length vals) cs\<rparr>)"

text \<open>
  \<open>sheet.getRange(sheet.getLastRow(), k + 1, 1, n).setValues([vals])\<close> below the header.
  The run calls it only after it has appended a row; on a sheet without data rows, where the
  range would be the header row, the definition leaves the sheet as it is.
\<close>

definition setLastRowValues :: "nat \<Rightarrow> cell list \<Rightarrow> sheet \<Rightarrow> sheet" where
  "setLastRowValues k vals s =
     (if rows s = [] then s
      else s\<lparr>rows := butlast (rows s) @ [setCellsFrom k vals (last (rows s))]\<rparr>)"

section \<open>Layout of a row\<close>

definition navStartIdx :: nat where
  "navStartIdx = 1"

definition numMACols :: nat where
  "numMACols = length fundNames * length maPeriods"

definition numAlertCols :: nat where
  "numAlertCols = length fundNames"

definition maStartIdx :: nat where
  "maStartIdx = navStartIdx + length fundNames"

definition alertStartIdx :: nat where
  "alertStartIdx = maStartIdx + numMACols"

definition headerRow :: "string list" where
  "headerRow =
     [''Date''] @ map (\<lambda>f. f @ '' NAV'') fundNames
     @ concat (map (\<lambda>f. [f @ '' 30D-MA'', f @ '' 50D-MA'', f @ '' 200D-MA'']) fundNames)
     @ map (\<lambda>f. f @ '' Analysis'') fundNames"

text \<open>Setting the header overwrites as many cells as the header has and leaves any further one.\<close>

definition setHeader :: "sheet \<Rightarrow> sheet" where
  "setHeader s = s\<lparr>header := headerRow @ drop (length headerRow) (header s)\<rparr>"

section \<open>The daily run\<close>

subsection \<open>Finding the latest trading day with data\<close>

text \<open>
  The loop \<open>for (let i = 1; i <= 5; i++)\<close>, as a recursion over the offsets still to try.
  A weekend or holiday is skipped before any request; a request that throws, or whose
  response is not valid, moves on to the next offset; the first valid response ends the loop.
  Next to the result, the date and the lines of its report, the function returns the offsets
  it sent a request for, in order.
\<close>

fun firstPassFrom :: "env \<Rightarrow> nat list \<Rightarrow> (date \<times> string list) option \<times> nat list" where
  "firstPassFrom e [] = (None, [])"
| "firstPassFrom e (i # is) =
     (let dateToFetch = daysAgo e i in
      if isWeekendOrHoliday dateToFetch then firstPassFrom e is
      else
        (case fetch e dateToFetch of
           FetchThrows \<Rightarrow> (fst (firstPassFrom e is), i # snd (firstPassFrom e is))
         | Response code content \<Rightarrow>
             (if validResponse code content
              then (Some (dateToFetch, splitOn (CHR 0x0A) content), [i])
              else (fst (firstPassFrom e is), i # snd (firstPassFrom e is)))))"

definition firstPass :: "env \<Rightarrow> (date \<times> string list) option \<times> nat list" where
  "firstPass e = firstPassFrom e [1 ..< 6]"

subsection \<open>Building the row\<close>

text \<open>\<open>parseFloat(parts[k])\<close>; a position the line does not have reads as \<open>undefined\<close>.\<close>

definition partAt :: "(string \<Rightarrow> real option) \<Rightarrow> string list \<Rightarrow> nat \<Rightarrow> real option" where
  "partAt pf parts k = (if k < length parts then pf (parts ! k) else None)"

text \<open>
  The value of one fund in the first pass: the line that starts with the fund's code and a
  semicolon, then \<open>parseFloat(parts[4]) || parseFloat(parts[5]) || parseFloat(parts.at(-1))\<close>;
  NaN when there is no such line.
\<close>

definition firstPassNav :: "(string \<Rightarrow> real option) \<Rightarrow> string list \<Rightarrow> string \<Rightarrow> real option" where
  "firstPassNav pf rawNavData code =
     (case find (\<lambda>l. startsWith l (code @ '';'')) rawNavData of
        None \<Rightarrow> None
      | Some line \<Rightarrow>
          (let parts = splitOn (CHR '';'') line
           in orNum (orNum (partAt pf parts 4) (partAt pf parts 5)) (pf (last parts))))"

definition navCell :: "real option \<Rightarrow> cell" where
  "navCell nav = (case nav of None \<Rightarrow> Str ''N/A'' | Some v \<Rightarrow> Num v)"

text \<open>The new row: the date, one value per fund, and empty cells for averages and analyses.\<close>

definition buildNavRow :: "(string \<Rightarrow> real option) \<Rightarrow> string list \<Rightarrow> date \<Rightarrow> row" where
  "buildNavRow pf rawNavData fetchedDate =
     \<lparr>rdate = fetchedDate,
      cells = map (\<lambda>fc. navCell (firstPassNav pf rawNavData (snd fc))) fundsToTrack
              @ replicate (numMACols + numAlertCols) (Str [])\<rparr>"

definition hasNAValues :: "row \<Rightarrow> bool" where
  "hasNAValues newNavRow =
     list_ex (\<lambda>i. cellAt newNavRow (navStartIdx + i) = Str ''N/A'') [0 ..< length fundNames]"

subsection \<open>Moving averages\<close>

text \<open>\<open>xs.slice(-n)\<close>: the last \<open>n\<close> elements, all of them for \<open>n = 0\<close>.\<close>

definition sliceLast :: "nat \<Rightarrow> 'a list \<Rightarrow> 'a list" where
  "sliceLast n xs = (if n = 0 then xs else drop (length xs - n) xs)"

text \<open>
  The average of one fund and period over \<open>dataRange\<close>, as the number \<open>parseFloat(ma)\<close>:
  NaN stands for the text \<open>N/A\<close>, and the text that \<open>toFixed(4)\<close> gives is kept as the
  double it is read back as. The sum runs from the left, starting at 0. The periods are
  positive.
\<close>

definition navsForMA :: "(string \<Rightarrow> real option) \<Rightarrow> row list \<Rightarrow> nat \<Rightarrow> nat \<Rightarrow> real list" where
  "navsForMA pf dataRange navColIdx period =
     map the (filter (\<lambda>v. v \<noteq> None)
       (map (\<lambda>r. pfCell pf (cellAt r navColIdx)) (sliceLast period dataRange)))"

definition computeMA :: "(string \<Rightarrow> real option) \<Rightarrow> row list \<Rightarrow> nat \<Rightarrow> nat \<Rightarrow> real option" where
  "computeMA pf dataRange navColIdx period =
     (if length dataRange \<ge> period then
        (if length (navsForMA pf dataRange navColIdx period) = period
         then Some (rnd (toFixed 4
                (fdiv (foldl fadd 0 (navsForMA pf dataRange navColIdx period)) (real period))))
         else None)
      else None)"

definition maCell :: "real option \<Rightarrow> cell" where
  "maCell ma = (case ma of None \<Rightarrow> Str ''N/A'' | Some v \<Rightarrow> Num v)"

text \<open>The object \<open>currentFundMAs\<close>: it has the three periods as keys.\<close>

definition currentFundMAs :: "(string \<Rightarrow> real option) \<Rightarrow> row list \<Rightarrow> nat \<Rightarrow> nat \<Rightarrow> real option" where
  "currentFundMAs pf dataRange navColIdx period =
     (if period \<in> set maPeriods then computeMA pf dataRange navColIdx period else None)"

text \<open>
  The object \<open>previousFundMAs\<close> of fund \<open>i\<close>: the averages stored in the row before the last,
  and no key at all when there is no such row.
\<close>

definition previousFundMAs :: "(string \<Rightarrow> real option) \<Rightarrow> row list \<Rightarrow> nat \<Rightarrow> nat \<Rightarrow> real option" where
  "previousFundMAs pf dataRange i period =
     (if length dataRange > 1 then
        (case map_of (zip maPeriods [0 ..< length maPeriods]) period of
           None \<Rightarrow> None
         | Some pIdx \<Rightarrow>
             pfCell pf (cellAt (dataRange ! (length dataRange - 2))
                          (maStartIdx + i * length maPeriods + pIdx)))
      else None)"

text \<open>The body of the loop over the funds: the three averages for the sheet, and the signal.\<close>

definition fundAnalysis :: "(string \<Rightarrow> real option) \<Rightarrow> row list \<Rightarrow> row \<Rightarrow> nat \<Rightarrow> cell list \<times> signal" where
  "fundAnalysis pf dataRange newNavRow i =
     (let navColIdx = navStartIdx + i;
          latestNav = pfCell pf (cellAt newNavRow navColIdx)
      in (map (\<lambda>period. maCell (computeMA pf dataRange navColIdx period)) maPeriods,
          evaluate latestNav (currentFundMAs pf dataRange navColIdx)
            (previousFundMAs pf dataRange i)))"

definition alertCell :: "signal \<Rightarrow> cell" where
  "alertCell sg = (if alerts sg = [] then Str [] else Msg (alerts sg))"

subsection \<open>The run\<close>

text \<open>
  How a run ends. After an incomplete row has been deleted, the statement
  \<open>for (let retryI = i + 1; ...)\<close> reads \<open>i\<close>. The two earlier loops declare their \<open>i\<close>
  with \<open>let\<close>, so each is local to its loop, the callbacks that take an \<open>i\<close> come later,
  and the project declares only functions at top level. The name has no binding there, the
  read raises a ReferenceError, and no \<open>try\<close> encloses the statement: the run stops.
  A run that completes goes on to send the notification mail, which reads the sheet and the
  results and changes neither; it is left out.
\<close>

datatype outcome =
  SheetNotFound | NoDataAlert | DuplicateSkipped | RetryReferenceError | Completed

record run_result =
  outcome :: outcome
  final :: "sheet option"
  queried :: "nat list"
  signals :: "signal list"

definition getNAVAndAnalyze :: "env \<Rightarrow> sheet option \<Rightarrow> run_result" where
  "getNAVAndAnalyze e sheetOpt =
     (case sheetOpt of
        None \<Rightarrow> \<lparr>outcome = SheetNotFound, final = None, queried = [], signals = []\<rparr>
      | Some sheet0 \<Rightarrow>
          (let s1 = setHeader sheet0 in
           case fst (firstPass e) of
             None \<Rightarrow>
               \<lparr>outcome = NoDataAlert, final = Some s1, queried = snd (firstPass e), signals = []\<rparr>
           | Some (fetchedDate, rawNavData) \<Rightarrow>
               (let currentFormattedDate = ymd fetchedDate;
                    dataRange = rows s1;
                    existingDates = map (\<lambda>r. ymd (rdate r)) dataRange
                in
                if currentFormattedDate \<in> set existingDates then
                  \<lparr>outcome = DuplicateSkipped, final = Some s1,
                   queried = snd (firstPass e), signals = []\<rparr>
                else
                  (let newNavRow = buildNavRow (parseFloat e) rawNavData fetchedDate;
                       s2 = appendRow s1 newNavRow
                   in
                   if hasNAValues newNavRow then
                     \<lparr>outcome = RetryReferenceError, final = Some (deleteLastRow s2),
                      queried = snd (firstPass e), signals = []\<rparr>
                   else
                     (let dataRange2 = rows s2;
                          res = map (fundAnalysis (parseFloat e) dataRange2 newNavRow)
                                  [0 ..< length fundNames];
                          currentDayMAsForSheet = concat (map fst res);
                          alertMsgs = map (\<lambda>x. alertCell (snd x)) res;
                          s3 = setLastRowValues maStartIdx currentDayMAsForSheet s2;
                          s4 = setLastRowValues alertStartIdx alertMsgs s3
                      in \<lparr>outcome = Completed, final = Some s4,
                          queried = snd (firstPass e), signals = map snd res\<rparr>)))))"

section \<open>Gap repair\<close>

text \<open>\<open>xs.findIndex(P)\<close>, with \<open>None\<close> for the result \<open>-1\<close>.\<close>

fun findIndex :: "('a \<Rightarrow> bool) \<Rightarrow> 'a list \<Rightarrow> nat option" where
  "findIndex P [] = None"
| "findIndex P (x # xs) = (if P x then Some 0 else map_option Suc (findIndex P xs))"

text \<open>
  The object \<open>fundColumns\<close>: for each fund whose header is found, in the order of the funds,
  its name, the 1-based column \<open>index\<close> and its code.
\<close>

definition fundColumns :: "string list \<Rightarrow> (string \<times> nat \<times> string) list" where
  "fundColumns headers =
     List.map_filter
       (\<lambda>fc. map_option (\<lambda>k. (fst fc, k + 1, snd fc))
                (findIndex (\<lambda>h. includesStr h (fst fc) \<and> includesStr h ''NAV'') headers))
       fundsToTrack"

text \<open>
  The scan \<open>for (let j = 2; j < Math.min(parts.length, 10); j++)\<close> for the first field that
  parses to a positive number.
\<close>

definition scanParts :: "(string \<Rightarrow> real option) \<Rightarrow> string list \<Rightarrow> real option" where
  "scanParts pf parts =
     (case find (\<lambda>j. case pf (parts ! j) of None \<Rightarrow> False | Some c \<Rightarrow> c > 0)
             [2 ..< min (length parts) 10] of
        None \<Rightarrow> None
      | Some j \<Rightarrow> pf (parts ! j))"

text \<open>
  What the body of \<open>if (navLine)\<close> leaves in \<open>foundNav\<close>: the scanned value, else, if
  \<open>foundNav\<close> is still falsy, whatever the last field parses to.
\<close>

definition extractNav :: "(string \<Rightarrow> real option) \<Rightarrow> string \<Rightarrow> real option \<Rightarrow> real option" where
  "extractNav pf navLine foundNav =
     (let parts = splitOn (CHR '';'') navLine;
          found1 = (case scanParts pf parts of None \<Rightarrow> foundNav | Some c \<Rightarrow> Some c)
      in if \<not> truthy found1 then pf (last parts) else found1)"

text \<open>
  The loop \<open>for (let dayOffset = 0; dayOffset <= 5; dayOffset++)\<close> for one missing cell, over
  the offsets still to try; \<open>foundNav\<close> is \<open>None\<close> for \<open>null\<close> and for NaN. The loop ends
  early once \<open>foundNav\<close> is truthy.
\<close>

fun gapSearch :: "env \<Rightarrow> string \<Rightarrow> date \<Rightarrow> nat list \<Rightarrow> real option \<Rightarrow> real option" where
  "gapSearch e code rowDate [] foundNav = foundNav"
| "gapSearch e code rowDate (dayOffset # ds) foundNav =
     (let fetchDate = minusDays e rowDate dayOffset in
      if isWeekendOrHoliday fetchDate then gapSearch e code rowDate ds foundNav
      else
        (case fetch e fetchDate of
           FetchThrows \<Rightarrow> gapSearch e code rowDate ds foundNav
         | Response rc content \<Rightarrow>
             (if validResponse rc content then
                (let found1 =
                   (case find (\<lambda>l. includesStr l (code @ '';'')) (splitOn (CHR 0x0A) content) of
                      None \<Rightarrow> foundNav
                    | Some navLine \<Rightarrow> extractNav (parseFloat e) navLine foundNav)
                 in if truthy found1 then found1 else gapSearch e code rowDate ds found1)
              else gapSearch e code rowDate ds foundNav)))"

text \<open>
  The updates collected for one fund from \<open>data\<close>, the rows as read at the start: one for
  each row whose cell is the text \<open>N/A\<close> and for which the search ends with a truthy number.
  An update is the sheet row \<open>i + 2\<close>, the column \<open>index\<close> and the value.
\<close>

definition fundUpdatesFor :: "env \<Rightarrow> row list \<Rightarrow> nat \<Rightarrow> string \<Rightarrow> (nat \<times> nat \<times> real) list" where
  "fundUpdatesFor e data index code =
     List.map_filter
       (\<lambda>i. if cellAt (data ! i) (index - 1) = Str ''N/A'' then
               (let foundNav = gapSearch e code (rdate (data ! i)) [0 ..< 6] None
                in if truthy foundNav then map_option (\<lambda>v. (i + 2, index, v)) foundNav else None)
             else None)
       [0 ..< length data]"

text \<open>\<open>sheet.getRange(row, col).setValue(value)\<close> on a data row of the sheet.\<close>

definition setValue :: "sheet \<Rightarrow> nat \<times> nat \<times> real \<Rightarrow> sheet" where
  "setValue s u =
     (case u of (r, c, v) \<Rightarrow>
        (if 2 \<le> r \<and> r - 2 < length (rows s) \<and> 2 \<le> c
         then s\<lparr>rows := (rows s)[r - 2 := setCellsFrom (c - 1) [Num v] (rows s ! (r - 2))]\<rparr>
         else s))"

record report =
  fundUpdates :: "(string \<times> nat) list"
  totalUpdates :: nat

text \<open>One round of the loop over \<open>fundColumns\<close>: collect from \<open>data\<close>, then write and count.\<close>

definition fundPass :: "env \<Rightarrow> row list \<Rightarrow> sheet \<times> report \<Rightarrow> string \<times> nat \<times> string \<Rightarrow> sheet \<times> report" where
  "fundPass e data st fi =
     (case fi of (fundName, index, code) \<Rightarrow>
        (let updates = fundUpdatesFor e data index code in
         if length updates > 0 then
           (foldl setValue (fst st) updates,
            \<lparr>fundUpdates = fundUpdates (snd st) @ [(fundName, length updates)],
             totalUpdates = totalUpdates (snd st) + length updates\<rparr>)
         else st))"

text \<open>
  A run of the repair. Reading the data rows of a sheet that has none asks for a range of
  zero rows, which the spreadsheet service refuses with an exception.
\<close>

datatype repair_error = RepairSheetNotFound | EmptyRange

definition fillNAData :: "env \<Rightarrow> sheet option \<Rightarrow> repair_error + sheet \<times> report" where
  "fillNAData e sheetOpt =
     (case sheetOpt of
        None \<Rightarrow> Inl RepairSheetNotFound
      | Some s \<Rightarrow>
          (if rows s = [] then Inl EmptyRange
           else Inr (foldl (fundPass e (rows s)) (s, \<lparr>fundUpdates = [], totalUpdates = 0\<rparr>)
                      (fundColumns (header s)))))"

section \<open>Notions used in the statements\<close>

text \<open>The tiers of the dip alerts in a list of alerts.\<close>

fun alertTier :: "alert \<Rightarrow> tier option" where
  "alertTier (Dip t s d) = Some t"
| "alertTier a = None"

definition dipTiers :: "alert list \<Rightarrow> tier list" where
  "dipTiers as = List.map_filter alertTier as"

text \<open>
  The trailing window of a series, the most recent \<open>period\<close> rows or all of them when there
  are fewer, and the valid numeric entries of a column in a list of rows.
\<close>

definition trailingWindow :: "nat \<Rightarrow> row list \<Rightarrow> row list" where
  "trailingWindow period rs = drop (length rs - period) rs"

definition validValues :: "(string \<Rightarrow> real option) \<Rightarrow> nat \<Rightarrow> row list \<Rightarrow> real list" where
  "validValues pf col rs = List.map_filter (\<lambda>r. pfCell pf (cellAt r col)) rs"

text \<open>
  The mean of a list as the script computes it, in doubles. The relative error of one rounding
  is at most \<open>epsD\<close>, for a result of at least \<open>minNormal\<close> in magnitude; below that the
  error is at most \<open>tinyD\<close>.
\<close>

definition fmean :: "real list \<Rightarrow> nat \<Rightarrow> real" where
  "fmean xs p = fdiv (foldl fadd 0 xs) (real p)"

definition epsD :: real where
  "epsD = 1 / 2 ^ 53"

definition tinyD :: real where
  "tinyD = 1 / 2 ^ 1075"

definition minNormal :: real where
  "minNormal = 1 / 2 ^ 1022"

text \<open>
  An offset is acceptable when its date is a trading day and the provider answers it with a
  valid response; \<open>reportLines\<close> are the lines of that response, and \<open>tradingOffsets\<close> keeps
  the offsets that fall on trading days.
\<close>

definition acceptable :: "env \<Rightarrow> nat \<Rightarrow> bool" where
  "acceptable e i =
     (\<not> isWeekendOrHoliday (daysAgo e i) \<and>
      (case fetch e (daysAgo e i) of FetchThrows \<Rightarrow> False | Response c b \<Rightarrow> validResponse c b))"

definition reportLines :: "env \<Rightarrow> nat \<Rightarrow> string list" where
  "reportLines e i =
     (case fetch e (daysAgo e i) of FetchThrows \<Rightarrow> [] | Response c b \<Rightarrow> splitOn (CHR 0x0A) b)"

definition tradingOffsets :: "env \<Rightarrow> nat list \<Rightarrow> nat list" where
  "tradingOffsets e offs = filter (\<lambda>j. \<not> isWeekendOrHoliday (daysAgo e j)) offs"

text \<open>The appended row once its averages and analyses have been written.\<close>

definition completedRow :: "env \<Rightarrow> row list \<Rightarrow> row \<Rightarrow> row" where
  "completedRow e dataRange newNavRow =
     setCellsFrom alertStartIdx
       (map (\<lambda>x. alertCell (snd x))
          (map (fundAnalysis (parseFloat e) dataRange newNavRow) [0 ..< length fundNames]))
       (setCellsFrom maStartIdx
          (concat (map fst
             (map (fundAnalysis (parseFloat e) dataRange newNavRow) [0 ..< length fundNames])))
          newNavRow)"

text \<open>
  The value the repair finds for row \<open>i\<close> of a fund, if the cell is missing and the search
  succeeds; a row with that value written; the relation between the rows before a repair and
  after it; and the funds whose repairable cells now hold a number.
\<close>

definition repairCell :: "env \<Rightarrow> row list \<Rightarrow> nat \<Rightarrow> string \<Rightarrow> nat \<Rightarrow> real option" where
  "repairCell e data index code i =
     (if cellAt (data ! i) (index - 1) = Str ''N/A'' \<and>
         truthy (gapSearch e code (rdate (data ! i)) [0 ..< 6] None)
      then gapSearch e code (rdate (data ! i)) [0 ..< 6] None else None)"

definition repairRow :: "nat \<Rightarrow> row \<Rightarrow> real option \<Rightarrow> row" where
  "repairRow index r v = (case v of None \<Rightarrow> r | Some x \<Rightarrow> setCellsFrom (index - 1) [Num x] r)"

definition repairedFrom :: "row list \<Rightarrow> row list \<Rightarrow> bool" where
  "repairedFrom data rs \<longleftrightarrow>
     length rs = length data \<and>
     (\<forall>i<length data. rdate (rs ! i) = rdate (data ! i) \<and>
        (\<forall>k. cellAt (rs ! i) k \<noteq> cellAt (data ! i) k \<longrightarrow>
             cellAt (data ! i) k = Str ''N/A'' \<and> (\<exists>v. cellAt (rs ! i) k = Num v)))"

definition settled :: "env \<Rightarrow> row list \<Rightarrow> (string \<times> nat \<times> string) list \<Rightarrow> row list \<Rightarrow> bool" where
  "settled e data fs rs \<longleftrightarrow>
     (\<forall>fi\<in>set fs. \<forall>i<length data.
        repairCell e data (fst (snd fi)) (snd (snd fi)) i \<noteq> None \<longrightarrow>
        (\<exists>v. cellAt (rs ! i) (fst (snd fi) - 1) = Num v))"

section \<open>Example data\<close>

text \<open>Six consecutive days of December 2025, from a Wednesday to the Monday after.\<close>

definition dec10 :: date where "dec10 = \<lparr>getDay = 3, ymd = ''2025-12-10''\<rparr>"
definition dec11 :: date where "dec11 = \<lparr>getDay = 4, ymd = ''2025-12-11''\<rparr>"
definition dec12 :: date where "dec12 = \<lparr>getDay = 5, ymd = ''2025-12-12''\<rparr>"
definition dec13 :: date where "dec13 = \<lparr>getDay = 6, ymd = ''2025-12-13''\<rparr>"
definition dec14 :: date where "dec14 = \<lparr>getDay = 0, ymd = ''2025-12-14''\<rparr>"
definition dec15 :: date where "dec15 = \<lparr>getDay = 1, ymd = ''2025-12-15''\<rparr>"

definition demoDays :: "date list" where
  "demoDays = [dec15, dec14, dec13, dec12, dec11, dec10]"

text \<open>
  The day \<open>k\<close> days before the one at position \<open>n\<close> of the table, and before a date of the
  table; an earlier Sunday outside of it.
\<close>

definition demoBack :: "nat \<Rightarrow> nat \<Rightarrow> date" where
  "demoBack n k =
     (if n + k < length demoDays then demoDays ! (n + k) else \<lparr>getDay = 0, ymd = ''2025-12-07''\<rparr>)"

definition demoMinusDays :: "date \<Rightarrow> nat \<Rightarrow> date" where
  "demoMinusDays d k =
     (case findIndex (\<lambda>x. ymd x = ymd d) demoDays of
        None \<Rightarrow> \<lparr>getDay = 0, ymd = ''2025-12-07''\<rparr>
      | Some n \<Rightarrow> demoBack n k)"

text \<open>A report with a line for every fund, and one that lacks the last fund.\<close>

definition reportLine :: "string \<Rightarrow> string \<Rightarrow> string" where
  "reportLine code nav = code @ '';F;I;;'' @ nav @ '';;;11-Dec-2025''"

definition partialReport :: string where
  "partialReport =
     reportLine ''120377'' ''70.5'' @ [CHR 0x0A]
     @ reportLine ''118989'' ''180.25'' @ [CHR 0x0A]
     @ reportLine ''118778'' ''160'' @ [CHR 0x0A]
     @ reportLine ''120716'' ''150.5''"

definition fullReport :: string where
  "fullReport = partialReport @ [CHR 0x0A] @ reportLine ''122639'' ''80.25''"

text \<open>What \<open>parseFloat\<close> gives on the fields of these reports.\<close>

definition demoParse :: "string \<Rightarrow> real option" where
  "demoParse =
     map_of [(''70.5'', 70.5), (''180.25'', 180.25), (''160'', 160), (''150.5'', 150.5),
       (''80.25'', 80.25), (''11-Dec-2025'', 11)]"

definition fetchA :: "date \<Rightarrow> fetch_result" where
  "fetchA d =
     (if ymd d = ''2025-12-12'' then Response 200 ''No data found''
      else if ymd d = ''2025-12-11'' then Response 200 fullReport
      else FetchThrows)"

definition fetchB :: "date \<Rightarrow> fetch_result" where
  "fetchB d =
     (if ymd d = ''2025-12-12'' then Response 200 partialReport
      else if ymd d = ''2025-12-11'' then Response 200 fullReport
      else FetchThrows)"

text \<open>
  Three runs: on Monday the 15th with no data for Friday, on Saturday the 13th with a partial
  report for Friday, and on Monday with a provider that cannot be reached.
\<close>

definition envA :: env where
  "envA = \<lparr>daysAgo = demoBack 0, minusDays = demoMinusDays, fetch = fetchA, parseFloat = demoParse\<rparr>"

definition envB :: env where
  "envB = \<lparr>daysAgo = demoBack 2, minusDays = demoMinusDays, fetch = fetchB, parseFloat = demoParse\<rparr>"

definition envNone :: env where
  "envNone =
     \<lparr>daysAgo = demoBack 0, minusDays = demoMinusDays, fetch = (\<lambda>d. FetchThrows),
      parseFloat = demoParse\<rparr>"

definition fullRow :: row where
  "fullRow =
     \<lparr>rdate = dec11,
      cells = [Num 70.5, Num 180.25, Num 160, Num 150.5, Num 80.25]
              @ replicate (numMACols + numAlertCols) (Str [])\<rparr>"

definition partialRow :: row where
  "partialRow =
     \<lparr>rdate = dec12,
      cells = [Num 70.5, Num 180.25, Num 160, Num 150.5, Str ''N/A'']
              @ replicate (numMACols + numAlertCols) (Str [])\<rparr>"

definition doneRow :: row where
  "doneRow =
     \<lparr>rdate = dec11,
      cells = [Num 70.5, Num 180.25, Num 160, Num 150.5, Num 80.25]
              @ replicate 15 (Str ''N/A'') @ replicate 5 (Str [])\<rparr>"

definition emptySheet :: sheet where
  "emptySheet = \<lparr>header = headerRow, rows = []\<rparr>"

definition doneSheet :: sheet where
  "doneSheet = \<lparr>header = headerRow, rows = [doneRow]\<rparr>"

definition naSheet :: sheet where
  "naSheet = \<lparr>header = headerRow, rows = [partialRow]\<rparr>"

definition mendedSheet :: sheet where
  "mendedSheet =
     \<lparr>header = headerRow,
      rows = [\<lparr>rdate = dec12,
               cells = [Num 70.5, Num 180.25, Num 160, Num 150.5, Num 80.25]
                       @ replicate (numMACols + numAlertCols) (Str [])\<rparr>]\<rparr>"

text \<open>Rows of a single fund for the averages: a stored day, and the day just appended.\<close>

definition navRow :: "cell \<Rightarrow> row" where
  "navRow c = \<lparr>rdate = dec11, cells = [c]\<rparr>"

definition prevRow :: row where
  "prevRow = \<lparr>rdate = dec11, cells = [Num 100, Num 1, Num 1, Num 1, Num 1, Num 100, Num 101]\<rparr>"

definition newRow :: row where
  "newRow = \<lparr>rdate = dec12, cells = [Num 250, Num 1, Num 1, Num 1, Num 1]\<rparr>"

section \<open>Rounding\<close>

subsection \<open>To the nearest double\<close>

lemma roundEven_close: "\<bar>real_of_int (roundEven y) - y\<bar> \<le> 1 / 2"
  unfolding roundEven_def by (auto; linarith)

lemma roundEven_int: "roundEven (real_of_int m) = m"
  by (simp add: roundEven_def)

lemma quantum_pos: "0 < quantum x"
  by (simp add: quantum_def)

lemma rnd_zero: "rnd 0 = 0"
  by (simp add: rnd_def roundEven_def)

lemma rnd_quantum: "\<bar>rnd x - x\<bar> \<le> quantum x / 2"
proof -
  have q: "0 < quantum x" by (rule quantum_pos)
  have "rnd x - x = (real_of_int (roundEven (x / quantum x)) - x / quantum x) * quantum x"
    using q by (simp add: rnd_def algebra_simps)
  then have "\<bar>rnd x - x\<bar>
      = \<bar>real_of_int (roundEven (x / quantum x)) - x / quantum x\<bar> * quantum x"
    using q by (simp add: abs_mult)
  also have "\<dots> \<le> 1 / 2 * quantum x"
    using q roundEven_close [of "x / quantum x"] by (intro mult_right_mono) auto
  finally show ?thesis by simp
qed

lemma quantum_large: "1 \<le> \<bar>x\<bar> \<Longrightarrow> quantum x \<le> \<bar>x\<bar> / 2 ^ 52"
proof -
  assume a: "1 \<le> \<bar>x\<bar>"
  then have p: "0 < nat \<lfloor>\<bar>x\<bar>\<rfloor>" by simp
  from floorlog_bounds [OF p, of 2]
  have "(2::nat) ^ (floorlog 2 (nat \<lfloor>\<bar>x\<bar>\<rfloor>) - 1) \<le> nat \<lfloor>\<bar>x\<bar>\<rfloor>" by simp
  then have "real ((2::nat) ^ (floorlog 2 (nat \<lfloor>\<bar>x\<bar>\<rfloor>) - 1)) \<le> real (nat \<lfloor>\<bar>x\<bar>\<rfloor>)"
    by (rule of_nat_mono)
  also have "\<dots> \<le> \<bar>x\<bar>" using a by simp
  finally have "(2::real) ^ (floorlog 2 (nat \<lfloor>\<bar>x\<bar>\<rfloor>) - 1) \<le> \<bar>x\<bar>" by simp
  then show ?thesis using a by (simp add: quantum_def divide_right_mono)
qed

lemma quantum_small:
  assumes "\<bar>x\<bar> < 1" "x \<noteq> 0"
  shows "quantum x \<le> \<bar>x\<bar> / 2 ^ 52 \<or> quantum x = 1 / 2 ^ 1074"
proof -
  define c where "c = nat (\<lceil>1 / \<bar>x\<bar>\<rceil> - 1)"
  define k where "k = floorlog 2 c"
  have ax: "0 < \<bar>x\<bar>" using assms(2) by simp
  have "1 < 1 / \<bar>x\<bar>" using assms ax by simp
  then have c2: "2 \<le> \<lceil>1 / \<bar>x\<bar>\<rceil>" by linarith
  then have cp: "0 < c" by (simp add: c_def)
  from floorlog_bounds [OF cp, of 2] have "c < 2 ^ k" by (simp add: k_def)
  then have "c + 1 \<le> 2 ^ k" by simp
  then have le: "real (c + 1) \<le> real (2 ^ k)" by (rule of_nat_mono)
  have eq: "real (c + 1) = real_of_int \<lceil>1 / \<bar>x\<bar>\<rceil>"
  proof -
    have "int (c + 1) = \<lceil>1 / \<bar>x\<bar>\<rceil>" unfolding c_def using c2 by linarith
    then have "real_of_int (int (c + 1)) = real_of_int \<lceil>1 / \<bar>x\<bar>\<rceil>" by (rule arg_cong)
    then show ?thesis by (simp only: of_int_of_nat_eq)
  qed
  have "1 / \<bar>x\<bar> \<le> real_of_int \<lceil>1 / \<bar>x\<bar>\<rceil>" by (rule le_of_int_ceiling)
  also have "\<dots> = real (c + 1)" by (rule eq [symmetric])
  also have "\<dots> \<le> real (2 ^ k)" by (rule le)
  finally have "1 / \<bar>x\<bar> \<le> 2 ^ k" by simp
  then have lo: "1 / 2 ^ k \<le> \<bar>x\<bar>"
    using ax by (simp add: field_simps)
  have q: "quantum x = 1 / 2 ^ (min k 1022 + 52)"
    using assms(1) by (simp add: quantum_def k_def c_def)
  show ?thesis
  proof (cases "k \<le> 1022")
    case True
    then have "quantum x = (1 / 2 ^ k) / 2 ^ 52" by (simp add: q power_add)
    also have "\<dots> \<le> \<bar>x\<bar> / 2 ^ 52" using lo by (intro divide_right_mono) auto
    finally show ?thesis by simp
  next
    case False
    then have "min k 1022 + 52 = 1074" by simp
    then show ?thesis by (simp only: q) simp
  qed
qed

text \<open>The error of one rounding.\<close>

lemma rnd_error: "\<bar>rnd x - x\<bar> \<le> epsD * \<bar>x\<bar> + tinyD"
proof (cases "x = 0")
  case True
  then show ?thesis by (simp add: rnd_zero epsD_def tinyD_def)
next
  case False
  have r: "\<bar>rnd x - x\<bar> \<le> quantum x / 2" by (rule rnd_quantum)
  have e: "epsD * \<bar>x\<bar> = (\<bar>x\<bar> / 2 ^ 52) / 2" by (simp add: epsD_def)
  have t: "tinyD = (1 / 2 ^ 1074) / 2" by (simp add: tinyD_def)
  have "quantum x \<le> \<bar>x\<bar> / 2 ^ 52 \<or> quantum x = 1 / 2 ^ 1074"
    using quantum_large [of x] quantum_small [of x] False by (cases "1 \<le> \<bar>x\<bar>") auto
  then have "quantum x / 2 \<le> epsD * \<bar>x\<bar> + tinyD"
  proof
    assume "quantum x \<le> \<bar>x\<bar> / 2 ^ 52"
    then have "quantum x / 2 \<le> epsD * \<bar>x\<bar>" unfolding e by simp
    moreover have "0 \<le> tinyD" by (simp add: tinyD_def)
    ultimately show ?thesis by linarith
  next
    assume "quantum x = 1 / 2 ^ 1074"
    then have "quantum x / 2 = tinyD" unfolding t by simp
    moreover have "0 \<le> epsD * \<bar>x\<bar>" by (simp add: epsD_def)
    ultimately show ?thesis by linarith
  qed
  with r show ?thesis by linarith
qed

text \<open>An integer of fewer than 54 bits is a double, and sums of such integers are exact.\<close>

lemma rnd_int:
  assumes "\<bar>n\<bar> < 2 ^ 53"
  shows "rnd (real_of_int n) = real_of_int n"
proof (cases "n = 0")
  case True
  then show ?thesis by (simp add: rnd_zero)
next
  case False
  define L where "L = floorlog 2 (nat \<bar>n\<bar>)"
  define h where "h = (2::real) ^ (53 - L)"
  define l where "l = (2::real) ^ (L - 1)"
  have n1: "1 \<le> \<bar>real_of_int n\<bar>" using False by (simp flip: of_int_abs)
  have fl: "\<lfloor>\<bar>real_of_int n\<bar>\<rfloor> = \<bar>n\<bar>" by (simp flip: of_int_abs)
  have "nat \<bar>n\<bar> < 2 ^ 53" using assms by (simp add: nat_less_iff)
  then have L53: "L \<le> 53" unfolding L_def by (simp add: floorlog_le_iff)
  have L1: "1 \<le> L" unfolding L_def using False by (simp add: floorlog_def)
  have e: "53 - L + (L - 1) = 52" using L53 L1 by simp
  have p: "(2::real) ^ 52 = h * l"
    unfolding h_def l_def by (simp only: power_add [symmetric] e)
  have h0: "h \<noteq> 0" and l0: "l \<noteq> 0" by (simp_all add: h_def l_def)
  have q: "quantum (real_of_int n) = l / (h * l)"
    using n1 by (simp only: quantum_def fl L_def [symmetric] l_def [symmetric] p [symmetric])
       (simp add: L_def l_def)
  have q': "quantum (real_of_int n) = 1 / h" unfolding q using l0 h0 by simp
  have hi: "h = real_of_int (2 ^ (53 - L))" by (simp add: h_def)
  have d: "real_of_int n / (1 / h) = real_of_int (n * 2 ^ (53 - L))"
    by (simp add: hi)
  have "rnd (real_of_int n) = real_of_int (n * 2 ^ (53 - L)) * (1 / h)"
    by (simp only: rnd_def q' d roundEven_int)
  also have "\<dots> = real_of_int n * h / h" by (simp add: hi)
  also have "\<dots> = real_of_int n" using h0 by simp
  finally show ?thesis .
qed

lemma fsum_replicate_int:
  "0 \<le> a \<Longrightarrow> 0 \<le> c \<Longrightarrow> a + int n * c < 2 ^ 53 \<Longrightarrow>
   foldl fadd (real_of_int a) (replicate n (real_of_int c)) = real_of_int (a + int n * c)"
proof (induction n arbitrary: a)
  case 0
  then show ?case by simp
next
  case (Suc n)
  have b: "a + c < 2 ^ 53"
  proof -
    have "a + c \<le> a + int (Suc n) * c" using Suc.prems(2) by (simp add: algebra_simps)
    with Suc.prems(3) show ?thesis by linarith
  qed
  have "\<bar>a + c\<bar> < 2 ^ 53" using b Suc.prems(1,2) by simp
  then have "rnd (real_of_int (a + c)) = real_of_int (a + c)" by (rule rnd_int)
  then have f: "fadd (real_of_int a) (real_of_int c) = real_of_int (a + c)"
    by (simp add: fadd_def)
  have "a + c + int n * c < 2 ^ 53" using Suc.prems(3) by (simp add: algebra_simps)
  moreover have "0 \<le> a + c" using Suc.prems(1,2) by simp
  ultimately have "foldl fadd (real_of_int (a + c)) (replicate n (real_of_int c))
      = real_of_int (a + c + int n * c)"
    using Suc.prems(2) by (intro Suc.IH)
  then show ?case by (simp add: f algebra_simps)
qed

lemmas fl_defs =
  fadd_def fsub_def fmul_def fdiv_def rnd_def quantum_def compute_floorlog roundEven_def

lemma rnd_numeral: "(numeral k :: int) < 2 ^ 53 \<Longrightarrow> rnd (numeral k) = numeral k"
  using rnd_int [of "numeral k"] by simp

lemma rnd_neg_numeral: "(numeral k :: int) < 2 ^ 53 \<Longrightarrow> rnd (- numeral k) = - numeral k"
  using rnd_int [of "- numeral k"] by simp

subsection \<open>Rounding is monotone\<close>

lemma roundEven_cases: "roundEven y = \<lfloor>y\<rfloor> \<or> roundEven y = \<lfloor>y\<rfloor> + 1"
  by (simp add: roundEven_def)

lemma roundEven_mono: "y \<le> z \<Longrightarrow> roundEven y \<le> roundEven z"
proof (cases "\<lfloor>y\<rfloor> = \<lfloor>z\<rfloor>")
  case True
  assume "y \<le> z"
  then show ?thesis unfolding roundEven_def True [symmetric] by auto
next
  case False
  assume "y \<le> z"
  then have "\<lfloor>y\<rfloor> \<le> \<lfloor>z\<rfloor>" by (rule floor_mono)
  with False have "\<lfloor>y\<rfloor> + 1 \<le> \<lfloor>z\<rfloor>" by simp
  then show ?thesis using roundEven_cases [of y] roundEven_cases [of z] by linarith
qed

lemma roundEven_minus: "roundEven (- y) = - roundEven y"
proof (cases "y \<in> \<int>")
  case True
  then obtain k where "y = real_of_int k" by (auto elim: Ints_cases)
  then show ?thesis using roundEven_int [of k] roundEven_int [of "- k"] by simp
next
  case False
  then have "real_of_int \<lfloor>y\<rfloor> \<noteq> y" by (metis Ints_of_int)
  then have "real_of_int \<lfloor>y\<rfloor> < y" "y < real_of_int \<lfloor>y\<rfloor> + 1" by linarith+
  then have f: "\<lfloor>- y\<rfloor> = - \<lfloor>y\<rfloor> - 1"
    by (intro floor_unique) (simp, linarith, simp)
  show ?thesis unfolding roundEven_def f by auto
qed

lemma quantum_minus: "quantum (- x) = quantum x"
  by (simp add: quantum_def)

lemma rnd_minus: "rnd (- x) = - rnd x"
  by (simp add: rnd_def quantum_minus roundEven_minus)

text \<open>The spacing is a power of two, at least the smallest subnormal.\<close>

lemma quantum_pow: "\<exists>n. quantum x = 2 ^ n / 2 ^ 1074"
proof (cases "1 \<le> \<bar>x\<bar>")
  case True
  define L where "L = floorlog 2 (nat \<lfloor>\<bar>x\<bar>\<rfloor>)"
  have "(2::real) ^ (L - 1) / 2 ^ 52 = 2 ^ (L - 1) * 2 ^ 1022 / (2 ^ 52 * 2 ^ 1022)"
    by simp
  also have "\<dots> = 2 ^ (L - 1 + 1022) / 2 ^ 1074"
    by (simp only: power_add [symmetric]) simp
  finally have "quantum x = 2 ^ (L - 1 + 1022) / 2 ^ 1074"
    using True by (simp only: quantum_def L_def if_True)
  then show ?thesis by blast
next
  case False
  define k where "k = min (floorlog 2 (nat (\<lceil>1 / \<bar>x\<bar>\<rceil> - 1))) 1022"
  have k: "k \<le> 1022" by (simp add: k_def)
  have "(1::real) / 2 ^ (k + 52) = 2 ^ (1022 - k) / (2 ^ (1022 - k) * 2 ^ (k + 52))"
    by simp
  also have "\<dots> = 2 ^ (1022 - k) / 2 ^ (1022 - k + (k + 52))"
    by (simp only: power_add)
  also have "1022 - k + (k + 52) = 1074" using k by simp
  finally have "quantum x = 2 ^ (1022 - k) / 2 ^ 1074"
    using False by (simp only: quantum_def k_def if_False)
  then show ?thesis by blast
qed

lemma quantum_lower: "x \<noteq> 0 \<Longrightarrow> quantum x = 1 / 2 ^ 1074 \<or> 2 ^ 52 * quantum x \<le> \<bar>x\<bar>"
  using quantum_large [of x] quantum_small [of x]
  by (cases "1 \<le> \<bar>x\<bar>") (auto simp: field_simps)

lemma quantum_upper: "\<bar>x\<bar> < 2 ^ 53 * quantum x"
proof (cases "1 \<le> \<bar>x\<bar>")
  case True
  define L where "L = floorlog 2 (nat \<lfloor>\<bar>x\<bar>\<rfloor>)"
  have p: "0 < nat \<lfloor>\<bar>x\<bar>\<rfloor>" using True by simp
  from floorlog_bounds [OF p, of 2] have "nat \<lfloor>\<bar>x\<bar>\<rfloor> < 2 ^ L" by (simp add: L_def)
  then have "nat \<lfloor>\<bar>x\<bar>\<rfloor> + 1 \<le> 2 ^ L" by linarith
  then have "real (nat \<lfloor>\<bar>x\<bar>\<rfloor> + 1) \<le> real (2 ^ L)" by (rule of_nat_mono)
  then have "real_of_int \<lfloor>\<bar>x\<bar>\<rfloor> + 1 \<le> 2 ^ L" using True by simp
  then have u: "\<bar>x\<bar> < 2 ^ L" by linarith
  have L1: "1 \<le> L" unfolding L_def using p by (simp add: floorlog_def)
  have "(2::real) ^ L = 2 ^ (Suc (L - 1))" using L1 by simp
  also have "\<dots> = 2 * 2 ^ (L - 1)" by simp
  finally have e: "(2::real) ^ L = 2 * 2 ^ (L - 1)" .
  have "2 ^ 53 * quantum x = 2 ^ 53 * (2 ^ (L - 1) / 2 ^ 52)"
    using True by (simp only: quantum_def L_def if_True)
  also have "\<dots> = 2 * 2 ^ (L - 1)" by simp
  finally show ?thesis using u e by simp
next
  case False
  show ?thesis
  proof (cases "x = 0")
    case True
    then show ?thesis using quantum_pos [of x] by simp
  next
    case x0: False
    define c where "c = nat (\<lceil>1 / \<bar>x\<bar>\<rceil> - 1)"
    define k where "k = floorlog 2 c"
    have ax: "0 < \<bar>x\<bar>" using x0 by simp
    have "1 < 1 / \<bar>x\<bar>" using False ax by simp
    then have c2: "2 \<le> \<lceil>1 / \<bar>x\<bar>\<rceil>" by linarith
    then have cp: "0 < c" by (simp add: c_def)
    have k1: "1 \<le> k" unfolding k_def using cp by (simp add: floorlog_def)
    from floorlog_bounds [OF cp, of 2] have "2 ^ (k - 1) \<le> c" by (simp add: k_def)
    then have "real (2 ^ (k - 1)) \<le> real c" by (rule of_nat_mono)
    moreover have "real c = real_of_int \<lceil>1 / \<bar>x\<bar>\<rceil> - 1"
    proof -
      have "int c = \<lceil>1 / \<bar>x\<bar>\<rceil> - 1" unfolding c_def using c2 by linarith
      then have "real_of_int (int c) = real_of_int (\<lceil>1 / \<bar>x\<bar>\<rceil> - 1)" by (rule arg_cong)
      then show ?thesis by (simp only: of_int_of_nat_eq of_int_diff of_int_1)
    qed
    moreover have "real_of_int \<lceil>1 / \<bar>x\<bar>\<rceil> - 1 < 1 / \<bar>x\<bar>" by linarith
    ultimately have "2 ^ (k - 1) < 1 / \<bar>x\<bar>" by simp
    then have hi: "\<bar>x\<bar> < 1 / 2 ^ (k - 1)" using ax by (simp add: field_simps)
    have q: "quantum x = 1 / 2 ^ (min k 1022 + 52)"
      using False by (simp add: quantum_def k_def c_def)
    have "(1::real) / 2 ^ (k - 1) \<le> 1 / 2 ^ (min k 1022 - 1)"
      by (intro divide_left_mono power_increasing) auto
    also have "\<dots> = 2 ^ 53 / (2 ^ 53 * 2 ^ (min k 1022 - 1))" by simp
    also have "\<dots> = 2 ^ 53 / 2 ^ (53 + (min k 1022 - 1))" by (simp only: power_add)
    also have "53 + (min k 1022 - 1) = min k 1022 + 52" using k1 by simp
    finally have "(1::real) / 2 ^ (k - 1) \<le> 2 ^ 53 * quantum x" by (simp only: q) simp
    with hi show ?thesis by linarith
  qed
qed

text \<open>Rounding does not cross a multiple of the spacing.\<close>

lemma rnd_le_grid:
  assumes "x \<le> real_of_int k * quantum x"
  shows "rnd x \<le> real_of_int k * quantum x"
proof -
  have q: "0 < quantum x" by (rule quantum_pos)
  then have "x / quantum x \<le> real_of_int k" using assms by (simp add: field_simps)
  then have "roundEven (x / quantum x) \<le> roundEven (real_of_int k)" by (rule roundEven_mono)
  then have "roundEven (x / quantum x) \<le> k" by (simp only: roundEven_int)
  then have "real_of_int (roundEven (x / quantum x)) \<le> real_of_int k" by simp
  then show ?thesis unfolding rnd_def using q by (intro mult_right_mono) auto
qed

lemma rnd_ge_grid:
  assumes "real_of_int k * quantum x \<le> x"
  shows "real_of_int k * quantum x \<le> rnd x"
proof -
  have q: "0 < quantum x" by (rule quantum_pos)
  then have "real_of_int k \<le> x / quantum x" using assms by (simp add: field_simps)
  then have "roundEven (real_of_int k) \<le> roundEven (x / quantum x)" by (rule roundEven_mono)
  then have "k \<le> roundEven (x / quantum x)" by (simp only: roundEven_int)
  then have "real_of_int k \<le> real_of_int (roundEven (x / quantum x))" by simp
  then show ?thesis unfolding rnd_def using q by (intro mult_right_mono) auto
qed

lemma rnd_nonneg: "0 \<le> x \<Longrightarrow> 0 \<le> rnd x"
  using rnd_ge_grid [of 0 x] by simp

lemma rnd_nonpos: "x \<le> 0 \<Longrightarrow> rnd x \<le> 0"
  using rnd_le_grid [of x 0] by simp

lemma rnd_mono_pos:
  assumes "0 < x" "x \<le> y"
  shows "rnd x \<le> rnd y"
proof -
  obtain n where n: "quantum x = 2 ^ n / 2 ^ 1074" using quantum_pow [of x] by blast
  obtain m where m: "quantum y = 2 ^ m / 2 ^ 1074" using quantum_pow [of y] by blast
  define D where "D = (2::real) ^ 1074"
  have D: "0 < D" by (simp add: D_def)
  have n': "quantum x = 2 ^ n / D" and m': "quantum y = 2 ^ m / D"
    by (simp_all only: n m D_def)
  have ux: "x < 2 ^ 53 * quantum x" using quantum_upper [of x] assms(1) by simp
  have uy: "y < 2 ^ 53 * quantum y" using quantum_upper [of y] assms by simp
  consider "n = m" | "n < m" | "m < n" by linarith
  then show ?thesis
  proof cases
    case 1
    then have e: "quantum y = quantum x" by (simp only: n' m')
    have q: "0 < quantum x" by (rule quantum_pos)
    then have "x / quantum x \<le> y / quantum x" using assms(2) by (simp add: divide_right_mono)
    then have "roundEven (x / quantum x) \<le> roundEven (y / quantum x)" by (rule roundEven_mono)
    then have "real_of_int (roundEven (x / quantum x)) \<le> real_of_int (roundEven (y / quantum x))"
      by simp
    then show ?thesis unfolding rnd_def e using q by (intro mult_right_mono) auto
  next
    case 2
    then have "0 < m" by simp
    then have "(2::real) ^ 1 \<le> 2 ^ m" by (intro power_increasing) auto
    then have "(2::real) ^ m \<noteq> 1" by simp
    then have "quantum y \<noteq> 1 / D" using D by (simp add: m')
    then have ly: "2 ^ 52 * quantum y \<le> y"
      using quantum_lower [of y] assms by (auto simp: D_def)
    have "real_of_int (2 ^ 52) * quantum y \<le> rnd y"
      using ly by (intro rnd_ge_grid) simp
    then have b1: "2 ^ 52 * quantum y \<le> rnd y" by simp
    have "53 + n \<le> 52 + m" using 2 by simp
    then have "(2::real) ^ (53 + n) \<le> 2 ^ (52 + m)" by (intro power_increasing) auto
    then have le: "(2::real) ^ 53 * 2 ^ n \<le> 2 ^ 52 * 2 ^ m" by (simp only: power_add)
    have k: "(2::real) ^ 52 * 2 ^ m = 2 ^ (52 + m - n) * 2 ^ n"
      using 2 by (simp only: power_add [symmetric]) simp
    have "x \<le> 2 ^ 53 * 2 ^ n / D" using ux by (simp add: n')
    also have "\<dots> \<le> 2 ^ 52 * 2 ^ m / D" using le D by (intro divide_right_mono) auto
    finally have xb: "x \<le> 2 ^ 52 * 2 ^ m / D" .
    have g: "2 ^ 52 * 2 ^ m / D = real_of_int (2 ^ (52 + m - n)) * quantum x"
      using k by (simp add: n')
    have "rnd x \<le> real_of_int (2 ^ (52 + m - n)) * quantum x"
      using xb unfolding g by (rule rnd_le_grid)
    then have "rnd x \<le> 2 ^ 52 * 2 ^ m / D" by (simp only: g)
    also have "\<dots> = 2 ^ 52 * quantum y" by (simp add: m')
    finally show ?thesis using b1 by linarith
  next
    case 3
    then have "0 < n" by simp
    then have "(2::real) ^ 1 \<le> 2 ^ n" by (intro power_increasing) auto
    then have "(2::real) ^ n \<noteq> 1" by simp
    then have "quantum x \<noteq> 1 / D" using D by (simp add: n')
    then have lx: "2 ^ 52 * quantum x \<le> x"
      using quantum_lower [of x] assms by (auto simp: D_def)
    have "53 + m \<le> 52 + n" using 3 by simp
    then have "(2::real) ^ (53 + m) \<le> 2 ^ (52 + n)" by (intro power_increasing) auto
    then have le: "(2::real) ^ 53 * 2 ^ m \<le> 2 ^ 52 * 2 ^ n" by (simp only: power_add)
    have "y < 2 ^ 53 * 2 ^ m / D" using uy by (simp add: m')
    also have "\<dots> \<le> 2 ^ 52 * 2 ^ n / D" using le D by (intro divide_right_mono) auto
    also have "\<dots> = 2 ^ 52 * quantum x" by (simp add: n')
    finally have "y < x" using lx by linarith
    with assms(2) show ?thesis by simp
  qed
qed

text \<open>Rounding to the nearest double is monotone.\<close>

lemma rnd_mono: "x \<le> y \<Longrightarrow> rnd x \<le> rnd y"
proof -
  assume le: "x \<le> y"
  consider "0 < x" | "x \<le> 0" "0 \<le> y" | "y < 0" by linarith
  then show ?thesis
  proof cases
    case 1
    then show ?thesis using le by (rule rnd_mono_pos)
  next
    case 2
    then show ?thesis using rnd_nonpos [of x] rnd_nonneg [of y] by linarith
  next
    case 3
    then have "0 < - y" "- y \<le> - x" using le by simp_all
    then have "rnd (- y) \<le> rnd (- x)" by (rule rnd_mono_pos)
    then show ?thesis by (simp add: rnd_minus)
  qed
qed

text \<open>So are the rounded operations, in the argument that the score varies.\<close>

lemma fdiv_mono: "0 \<le> c \<Longrightarrow> a \<le> b \<Longrightarrow> fdiv a c \<le> fdiv b c"
  unfolding fdiv_def by (intro rnd_mono divide_right_mono)

lemma fmul_mono: "0 \<le> c \<Longrightarrow> a \<le> b \<Longrightarrow> fmul a c \<le> fmul b c"
  unfolding fmul_def by (intro rnd_mono mult_right_mono)

lemma fadd_mono: "a \<le> b \<Longrightarrow> c \<le> d \<Longrightarrow> fadd a c \<le> fadd b d"
  unfolding fadd_def by (intro rnd_mono add_mono)

lemma fdiv_nonneg: "0 \<le> a \<Longrightarrow> 0 \<le> c \<Longrightarrow> 0 \<le> fdiv a c"
  unfolding fdiv_def by (intro rnd_nonneg divide_nonneg_nonneg)

lemma fmul_nonneg: "0 \<le> a \<Longrightarrow> 0 \<le> c \<Longrightarrow> 0 \<le> fmul a c"
  unfolding fmul_def by (intro rnd_nonneg mult_nonneg_nonneg)

lemma fadd_nonneg: "0 \<le> a \<Longrightarrow> 0 \<le> c \<Longrightarrow> 0 \<le> fadd a c"
  unfolding fadd_def by (intro rnd_nonneg add_nonneg_nonneg)

subsection \<open>The error of a sum and of a mean\<close>

lemma eps_tiny: "tinyD = epsD * minNormal"
  by (simp add: tinyD_def epsD_def minNormal_def power_add [symmetric])

lemma epsD_nonneg: "0 \<le> epsD" and minNormal_nonneg: "0 \<le> minNormal"
  by (simp_all add: epsD_def minNormal_def)

lemma growth_nonneg: "0 \<le> (1 + epsD) ^ k - 1"
proof -
  have "1 \<le> 1 + epsD" using epsD_nonneg by simp
  then have "1 \<le> (1 + epsD) ^ k" by (rule one_le_power)
  then show ?thesis by simp
qed

lemma growth_step: "(1 + epsD) * ((1 + epsD) ^ k - 1) + epsD = (1 + epsD) ^ Suc k - 1"
  by (simp add: algebra_simps)

text \<open>One rounded addition to a running sum that is off by at most \<open>g * (A + minNormal)\<close>.\<close>

lemma step_error:
  assumes e: "\<bar>s' - s\<bar> \<le> g * (A + minNormal)" and g: "0 \<le> g" and A: "\<bar>s\<bar> \<le> A"
  shows "\<bar>rnd (s' + x) - (s + x)\<bar> \<le> ((1 + epsD) * g + epsD) * (A + \<bar>x\<bar> + minNormal)"
proof -
  define u where "u = epsD"
  define m where "m = minNormal"
  define B where "B = A + m"
  define B' where "B' = A + \<bar>x\<bar> + m"
  have u0: "0 \<le> u" and m0: "0 \<le> m"
    by (simp_all add: u_def m_def epsD_nonneg minNormal_nonneg)
  have A0: "0 \<le> A" using A by linarith
  have B0: "0 \<le> B" and BB: "B \<le> B'" using A0 m0 by (simp_all add: B_def B'_def)
  have e': "\<bar>s' - s\<bar> \<le> g * B" using e by (simp add: B_def m_def)
  have r: "\<bar>rnd (s' + x) - (s' + x)\<bar> \<le> u * \<bar>s' + x\<bar> + u * m"
    using rnd_error [of "s' + x"] by (simp add: u_def m_def eps_tiny)
  have "\<bar>s' + x\<bar> \<le> \<bar>s\<bar> + \<bar>x\<bar> + \<bar>s' - s\<bar>" by linarith
  also have "\<dots> \<le> A + \<bar>x\<bar> + g * B" using A e' by linarith
  finally have sx: "\<bar>s' + x\<bar> \<le> A + \<bar>x\<bar> + g * B" .
  have "u * \<bar>s' + x\<bar> \<le> u * (A + \<bar>x\<bar> + g * B)"
    using sx u0 by (rule mult_left_mono)
  with r have r2: "\<bar>rnd (s' + x) - (s' + x)\<bar> \<le> u * (A + \<bar>x\<bar> + g * B) + u * m"
    by linarith
  have "\<bar>rnd (s' + x) - (s + x)\<bar> \<le> \<bar>rnd (s' + x) - (s' + x)\<bar> + \<bar>s' - s\<bar>" by linarith
  also have "\<dots> \<le> u * (A + \<bar>x\<bar> + g * B) + u * m + g * B" using r2 e' by linarith
  also have "\<dots> = u * B' + (1 + u) * (g * B)" by (simp add: B'_def algebra_simps)
  also have "\<dots> \<le> u * B' + (1 + u) * (g * B')"
  proof -
    have "g * B \<le> g * B'" using BB g by (rule mult_left_mono)
    moreover have "0 \<le> 1 + u" using u0 by simp
    ultimately have "(1 + u) * (g * B) \<le> (1 + u) * (g * B')" by (rule mult_left_mono)
    then show ?thesis by simp
  qed
  also have "\<dots> = ((1 + u) * g + u) * B'" by (simp add: algebra_simps)
  finally show ?thesis by (simp add: u_def B'_def m_def)
qed

lemma fsum_error:
  "\<bar>s' - s\<bar> \<le> ((1 + epsD) ^ k - 1) * (A + minNormal) \<Longrightarrow> \<bar>s\<bar> \<le> A \<Longrightarrow>
   \<bar>foldl fadd s' xs - (s + sum_list xs)\<bar>
     \<le> ((1 + epsD) ^ (k + length xs) - 1) * (A + sum_list (map abs xs) + minNormal)"
proof (induction xs arbitrary: s' s A k)
  case Nil
  then show ?case by simp
next
  case (Cons x xs)
  have 1: "\<bar>rnd (s' + x) - (s + x)\<bar> \<le> ((1 + epsD) ^ Suc k - 1) * (A + \<bar>x\<bar> + minNormal)"
    using step_error [OF Cons.prems(1) growth_nonneg Cons.prems(2), of x]
    by (simp only: growth_step)
  have 2: "\<bar>s + x\<bar> \<le> A + \<bar>x\<bar>" using Cons.prems(2) by linarith
  from Cons.IH [OF 1 2] show ?case
    by (simp add: fadd_def add.assoc)
qed

lemma sum_list_abs_le: "\<bar>sum_list xs\<bar> \<le> sum_list (map abs (xs :: real list))"
proof (induction xs)
  case Nil
  show ?case by simp
next
  case (Cons a xs)
  have "\<bar>a + sum_list xs\<bar> \<le> \<bar>a\<bar> + \<bar>sum_list xs\<bar>" by (rule abs_triangle_ineq)
  with Cons show ?case by simp
qed

text \<open>The mean in doubles against the exact mean.\<close>

lemma fmean_error:
  assumes "0 < p"
  shows "\<bar>fmean xs p - sum_list xs / real p\<bar>
     \<le> ((1 + epsD) ^ (length xs + 1) - 1) * (sum_list (map abs xs) + minNormal) / real p + tinyD"
proof -
  define u where "u = epsD"
  define m where "m = minNormal"
  define A where "A = sum_list (map abs xs)"
  define S where "S = sum_list xs"
  define s' where "s' = foldl fadd 0 xs"
  define g where "g = (1 + epsD) ^ length xs - 1"
  define P where "P = real p"
  have P0: "0 < P" using assms by (simp add: P_def)
  have u0: "0 \<le> u" and m0: "0 \<le> m"
    by (simp_all add: u_def m_def epsD_nonneg minNormal_nonneg)
  have g0: "0 \<le> g" unfolding g_def by (rule growth_nonneg)
  have SA: "\<bar>S\<bar> \<le> A" unfolding S_def A_def by (rule sum_list_abs_le)
  have A0: "0 \<le> A" using SA by linarith
  have e: "\<bar>s' - S\<bar> \<le> g * (A + m)"
    using fsum_error [of 0 0 0 0 xs] by (simp add: s'_def S_def g_def A_def m_def)
  have s'A: "\<bar>s'\<bar> \<le> A + g * (A + m)" using e SA by linarith
  have r: "\<bar>rnd (s' / P) - s' / P\<bar> \<le> u * \<bar>s'\<bar> / P + u * m"
    using rnd_error [of "s' / P"] P0 by (simp add: u_def m_def eps_tiny)
  have "u * \<bar>s'\<bar> \<le> u * (A + g * (A + m))" using s'A u0 by (rule mult_left_mono)
  then have "u * \<bar>s'\<bar> / P \<le> u * (A + g * (A + m)) / P"
    using P0 by (simp add: divide_right_mono)
  with r have r2: "\<bar>rnd (s' / P) - s' / P\<bar> \<le> u * (A + g * (A + m)) / P + u * m"
    by linarith
  have d: "\<bar>s' / P - S / P\<bar> \<le> g * (A + m) / P"
  proof -
    have "\<bar>s' / P - S / P\<bar> = \<bar>s' - S\<bar> / P"
      using P0 by (simp add: diff_divide_distrib [symmetric])
    also have "\<dots> \<le> g * (A + m) / P" using e P0 by (simp add: divide_right_mono)
    finally show ?thesis .
  qed
  have "\<bar>rnd (s' / P) - S / P\<bar> \<le> \<bar>rnd (s' / P) - s' / P\<bar> + \<bar>s' / P - S / P\<bar>"
    by linarith
  also have "\<dots> \<le> u * (A + g * (A + m)) / P + u * m + g * (A + m) / P"
    using r2 d by linarith
  also have "\<dots> = (u * A + (1 + u) * g * (A + m)) / P + u * m"
    by (simp add: algebra_simps add_divide_distrib)
  also have "\<dots> \<le> (u * (A + m) + (1 + u) * g * (A + m)) / P + u * m"
  proof -
    have "u * A \<le> u * (A + m)" using u0 m0 by (intro mult_left_mono) auto
    then have "(u * A + (1 + u) * g * (A + m)) / P
        \<le> (u * (A + m) + (1 + u) * g * (A + m)) / P"
      using P0 by (intro divide_right_mono) auto
    then show ?thesis by simp
  qed
  also have "u * (A + m) + (1 + u) * g * (A + m) = ((1 + u) * g + u) * (A + m)"
    by (simp add: algebra_simps)
  also have "(1 + u) * g + u = (1 + epsD) ^ (length xs + 1) - 1"
    unfolding u_def g_def using growth_step [of "length xs"] by simp
  finally show ?thesis
    by (simp add: fmean_def fdiv_def s'_def P_def S_def A_def m_def u_def eps_tiny)
qed

subsection \<open>To a fixed number of decimals\<close>

lemma toFixed_grid: "toFixed k x * 10 ^ k \<in> \<int>"
  by (simp add: toFixed_def sgn_real_def)

lemma toFixed_close: "\<bar>toFixed k x - x\<bar> \<le> 1 / (2 * 10 ^ k)"
proof -
  define y where "y = \<bar>x\<bar> * 10 ^ k"
  define f where "f = real_of_int \<lfloor>y + 1 / 2\<rfloor>"
  have p: "(10::real) ^ k > 0" by simp
  have "f \<le> y + 1 / 2" "y + 1 / 2 < f + 1" unfolding f_def by linarith+
  then have d: "\<bar>f - y\<bar> \<le> 1 / 2" by linarith
  have x: "x = sgn x * y / 10 ^ k" by (simp add: y_def sgn_real_def)
  have "toFixed k x - x = sgn x * (f - y) / 10 ^ k"
    by (subst (2) x) (simp add: toFixed_def f_def y_def algebra_simps diff_divide_distrib)
  then have "\<bar>toFixed k x - x\<bar> = \<bar>sgn x\<bar> * \<bar>f - y\<bar> / 10 ^ k"
    by (simp add: abs_mult)
  also have "\<dots> \<le> 1 * (1 / 2) / 10 ^ k"
    using d p by (intro divide_right_mono mult_mono) (auto simp: sgn_real_def)
  finally show ?thesis by simp
qed

section \<open>Properties of the moving averages\<close>

lemma validValues_alt:
  "validValues pf col rs =
     map the (filter (\<lambda>v. v \<noteq> None) (map (\<lambda>r. pfCell pf (cellAt r col)) rs))"
  by (simp add: validValues_def List.map_filter_def filter_map comp_def)

lemma length_validValues: "length (validValues pf col rs) \<le> length rs"
  by (simp add: validValues_def List.map_filter_def)

lemma navsForMA_window:
  "0 < period \<Longrightarrow> navsForMA pf rs col period = validValues pf col (trailingWindow period rs)"
  by (simp add: navsForMA_def validValues_alt sliceLast_def trailingWindow_def)

lemma computeMA_window:
  assumes "0 < period"
  shows "computeMA pf dataRange col period =
     (if length (validValues pf col (trailingWindow period dataRange)) = period
      then Some (rnd (toFixed 4
             (fmean (validValues pf col (trailingWindow period dataRange)) period)))
      else None)"
proof (cases "length dataRange < period")
  case True
  have "length (validValues pf col (trailingWindow period dataRange))
          \<le> length (trailingWindow period dataRange)"
    by (rule length_validValues)
  also have "\<dots> \<le> length dataRange" by (simp add: trailingWindow_def)
  finally show ?thesis using True by (simp add: computeMA_def)
next
  case False
  then show ?thesis using assms
    by (simp add: computeMA_def navsForMA_window fmean_def)
qed

text \<open>The windows of the examples, and their means in doubles.\<close>

lemma s29: "foldl fadd 0 (replicate 29 100) = 2900"
  using fsum_replicate_int [of 0 100 29] by simp

lemma s49: "foldl fadd 0 (replicate 49 100) = 4900"
  using fsum_replicate_int [of 0 100 49] by simp

lemma s28: "foldl fadd 0 (replicate 28 100) = 2800"
  using fsum_replicate_int [of 0 100 28] by simp

lemma m101: "fmean (replicate 29 100 @ [130]) 30 = 101"
  by (simp add: fmean_def s29 fadd_def fdiv_def rnd_numeral)

lemma r_a: "rnd (48003 / 16) = 48003 / 16"
  by (simp add: fl_defs)

lemma r_b: "rnd (16001 / 160) = 3518657111208755 / 2 ^ 45"
  by (simp add: fl_defs)

lemma t_a: "toFixed 4 (3518657111208755 / 2 ^ 45) = 500031 / 5000"
  by (simp add: toFixed_def)

lemma mtie: "toFixed 4 (fmean (replicate 29 100 @ [1603 / 16]) 30) = 500031 / 5000"
proof -
  have "fmean (replicate 29 100 @ [1603 / 16]) 30 = rnd (rnd (48003 / 16) / 30)"
    by (simp add: fmean_def s29 fadd_def fdiv_def)
  also have "\<dots> = 3518657111208755 / 2 ^ 45"
    unfolding r_a using r_b by simp
  finally show ?thesis by (simp only: t_a)
qed

lemma t101: "toFixed 4 101 = 101"
  by (simp add: toFixed_def)

lemma window_full:
  "validValues (\<lambda>s. None) (Suc 0)
     (trailingWindow 30 (replicate 29 (navRow (Num 100)) @ [navRow (Num x)]))
   = replicate 29 100 @ [x]"
  by (simp add: validValues_def trailingWindow_def List.map_filter_def navRow_def cellAt_def
        pfCell_def)

lemma window_gap:
  "validValues (\<lambda>s. None) (Suc 0)
     (trailingWindow 30 (replicate 28 (navRow (Num 100)) @ [navRow (Str ''N/A''), navRow (Num x)]))
   = replicate 28 100 @ [x]"
  by (simp add: validValues_def trailingWindow_def List.map_filter_def navRow_def cellAt_def
        pfCell_def)

lemma window_short:
  "validValues (\<lambda>s. None) (Suc 0)
     (trailingWindow 30 (replicate 28 (navRow (Num 100)) @ [navRow (Num x)]))
   = replicate 28 100 @ [x]"
  by (simp add: validValues_def trailingWindow_def List.map_filter_def navRow_def cellAt_def
        pfCell_def)

lemma window_pair:
  "validValues (\<lambda>s. None) (Suc 0) (trailingWindow 2 [navRow (Num x), navRow (Num y)]) = [x, y]"
  by (simp add: validValues_def trailingWindow_def List.map_filter_def navRow_def cellAt_def
        pfCell_def)

lemma mhalf: "toFixed 4 (fmean [1 / 32, 1 / 32] 2) = 313 / 10000"
proof -
  have m: "fmean [1 / 32, 1 / 32] 2 = 1 / 32"
    by (simp add: fmean_def fl_defs)
  have "toFixed 4 (1 / 32) = 313 / 10000" by (simp add: toFixed_def)
  then show ?thesis by (simp only: m)
qed

text \<open>
  Claim C1. For a period \<open>P\<close> (30, 50 and 200 are the ones in use; any positive period will
  do), the moving average is a number exactly when the trailing window of the series holds
  \<open>P\<close> valid numeric entries; with \<open>P - 1\<close> valid entries, or with fewer than \<open>P\<close> rows,
  it is unavailable. The number is the one the script computes in doubles: the entries are
  added from the oldest to the newest and the sum is divided by \<open>P\<close>, each operation rounded
  to the nearest double; the quotient is rounded to four decimals, which gives a multiple of
  \<open>1 / 10000\<close> at most \<open>1 / 20000\<close> away from it; and the double nearest to that decimal is
  the result. The quotient in doubles is within the stated bound of the exact arithmetic
  mean, a relative error of about \<open>(P + 1) / 2 ^ 53\<close>.
\<close>

theorem moving_average_iff:
  "0 < period \<Longrightarrow>
     computeMA pf dataRange col period =
       (if length (validValues pf col (trailingWindow period dataRange)) = period
        then Some (rnd (toFixed 4
               (fmean (validValues pf col (trailingWindow period dataRange)) period)))
        else None)
     \<and> (length (validValues pf col (trailingWindow period dataRange)) = period - 1 \<longrightarrow>
          computeMA pf dataRange col period = None)
     \<and> (length dataRange < period \<longrightarrow> computeMA pf dataRange col period = None)
     \<and> toFixed 4 (fmean (validValues pf col (trailingWindow period dataRange)) period) * 10 ^ 4
          \<in> \<int>
     \<and> \<bar>toFixed 4 (fmean (validValues pf col (trailingWindow period dataRange)) period)
          - fmean (validValues pf col (trailingWindow period dataRange)) period\<bar> \<le> 1 / 20000
     \<and> \<bar>rnd (toFixed 4 (fmean (validValues pf col (trailingWindow period dataRange)) period))
          - toFixed 4 (fmean (validValues pf col (trailingWindow period dataRange)) period)\<bar>
          \<le> epsD * \<bar>toFixed 4
                 (fmean (validValues pf col (trailingWindow period dataRange)) period)\<bar> + tinyD
     \<and> \<bar>fmean (validValues pf col (trailingWindow period dataRange)) period
          - sum_list (validValues pf col (trailingWindow period dataRange)) / real period\<bar>
          \<le> ((1 + epsD) ^ (length (validValues pf col (trailingWindow period dataRange)) + 1) - 1)
             * (sum_list (map abs (validValues pf col (trailingWindow period dataRange)))
                + minNormal) / real period + tinyD"
proof -
  assume p: "0 < period"
  let ?V = "validValues pf col (trailingWindow period dataRange)"
  have 1: "computeMA pf dataRange col period =
       (if length ?V = period then Some (rnd (toFixed 4 (fmean ?V period))) else None)"
    using p by (rule computeMA_window)
  have 2: "length ?V = period - 1 \<longrightarrow> computeMA pf dataRange col period = None"
    using p by (auto simp: 1)
  have 3: "length dataRange < period \<longrightarrow> computeMA pf dataRange col period = None"
    by (simp add: computeMA_def)
  have 4: "toFixed 4 (fmean ?V period) * 10 ^ 4 \<in> \<int>" by (rule toFixed_grid)
  have 5: "\<bar>toFixed 4 (fmean ?V period) - fmean ?V period\<bar> \<le> 1 / 20000"
    using toFixed_close [of 4 "fmean ?V period"] by simp
  have 6: "\<bar>rnd (toFixed 4 (fmean ?V period)) - toFixed 4 (fmean ?V period)\<bar>
          \<le> epsD * \<bar>toFixed 4 (fmean ?V period)\<bar> + tinyD"
    by (rule rnd_error)
  have 7: "\<bar>fmean ?V period - sum_list ?V / real period\<bar>
          \<le> ((1 + epsD) ^ (length ?V + 1) - 1) * (sum_list (map abs ?V) + minNormal)
               / real period + tinyD"
    using p by (rule fmean_error)
  from 1 2 3 4 5 6 7 show ?thesis by blast
qed

theorem moving_average_iff_witness:
  "0 < (30::nat)
   \<and> computeMA (\<lambda>s. None) (replicate 29 (navRow (Num 100)) @ [navRow (Num 130)]) 1 30 = Some 101
   \<and> computeMA (\<lambda>s. None) (replicate 29 (navRow (Num 100)) @ [navRow (Num (1603 / 16))]) 1 30
       = Some (rnd (500031 / 5000))
   \<and> computeMA (\<lambda>s. None)
        (replicate 28 (navRow (Num 100)) @ [navRow (Str ''N/A''), navRow (Num 130)]) 1 30 = None
   \<and> computeMA (\<lambda>s. None) (replicate 28 (navRow (Num 100)) @ [navRow (Num 130)]) 1 30 = None
   \<and> computeMA (\<lambda>s. None) [navRow (Num (1 / 32)), navRow (Num (1 / 32))] 1 2
       = Some (rnd (313 / 10000))"
  using moving_average_iff [where period = 30 and pf = "\<lambda>s. None" and col = 1
           and dataRange = "replicate 29 (navRow (Num 100)) @ [navRow (Num 130)]"]
     moving_average_iff [where period = 30 and pf = "\<lambda>s. None" and col = 1
           and dataRange = "replicate 29 (navRow (Num 100)) @ [navRow (Num (1603 / 16))]"]
     moving_average_iff [where period = 30 and pf = "\<lambda>s. None" and col = 1
           and dataRange = "replicate 28 (navRow (Num 100))
                            @ [navRow (Str ''N/A''), navRow (Num 130)]"]
     moving_average_iff [where period = 30 and pf = "\<lambda>s. None" and col = 1
           and dataRange = "replicate 28 (navRow (Num 100)) @ [navRow (Num 130)]"]
     moving_average_iff [where period = 2 and pf = "\<lambda>s. None" and col = 1
           and dataRange = "[navRow (Num (1 / 32)), navRow (Num (1 / 32))]"]
  by (simp add: window_full window_gap window_short window_pair m101 t101 mtie mhalf
        rnd_numeral)

text \<open>An average that is available has a valid entry in every row of its window, the last too.\<close>

lemma computeMA_Some_last:
  assumes "computeMA pf dataRange col period = Some v" "0 < period"
  shows "dataRange \<noteq> [] \<and> pfCell pf (cellAt (last dataRange) col) \<noteq> None"
proof -
  let ?w = "map (\<lambda>r. pfCell pf (cellAt r col)) (sliceLast period dataRange)"
  from assms have len: "length dataRange \<ge> period"
    and n: "length (navsForMA pf dataRange col period) = period"
    by (auto simp: computeMA_def split: if_splits)
  from len assms(2) have ne: "dataRange \<noteq> []" by auto
  have lw: "length ?w = period" using len assms(2) by (simp add: sliceLast_def)
  from n have "length (filter (\<lambda>v. v \<noteq> None) ?w) = length ?w"
    using lw by (simp add: navsForMA_def)
  then have all: "\<forall>x\<in>set ?w. x \<noteq> None"
    using length_filter_less [of _ ?w "\<lambda>v. v \<noteq> None"] by fastforce
  have d: "length dataRange - period < length dataRange"
    using ne assms(2) by simp
  then have "drop (length dataRange - period) dataRange \<noteq> []" by simp
  then have "last (drop (length dataRange - period) dataRange)
               \<in> set (drop (length dataRange - period) dataRange)"
    by (rule last_in_set)
  then have "last dataRange \<in> set (sliceLast period dataRange)"
    using d assms(2) by (simp add: sliceLast_def)
  then show ?thesis using all ne by auto
qed

section \<open>Properties of the signals\<close>

lemma dipTiers_simps:
  "dipTiers [] = []"
  "dipTiers (Dip t s d # as) = t # dipTiers as"
  "dipTiers (GoldenCross # as) = dipTiers as"
  "dipTiers (DeathCross # as) = dipTiers as"
  "dipTiers (LongTermDowntrend # as) = dipTiers as"
  by (simp_all add: dipTiers_def)

lemma dipTiers_append: "dipTiers (as @ bs) = dipTiers as @ dipTiers bs"
  by (simp add: dipTiers_def List.map_filter_def)

lemma dipTiers_cross: "dipTiers (crossAlerts cur prev) = []"
  by (simp add: crossAlerts_def dipTiers_simps split: option.splits)

lemma dipTiers_long: "dipTiers (longTermAlerts nav cur) = []"
  by (simp add: longTermAlerts_def dipTiers_simps split: option.splits)

lemma dipStep_not_NaN: "fst st \<noteq> NaN \<Longrightarrow> fst (dipStep nav cur st p) \<noteq> NaN"
  by (auto simp: dipStep_def diffValue_def Let_def split: option.splits)

lemma maxDip_not_NaN: "maxDipPercentage nav cur \<noteq> NaN"
  by (simp add: maxDipPercentage_def dipScan_def maPeriods_def dipStep_not_NaN)

lemma d95: "fmul (fdiv (fsub 95 100) 100) 100 = - 5"
  by (simp add: fl_defs)

lemma diff95: "diffValue 95 100 = Fin 5"
  by (simp add: diffValue_def d95 toFixed_def rnd_neg_numeral)

text \<open>
  The percentage is rounded to two decimals from its value in doubles: for a value of
  593.71875 against an average of 625 the exact percentage is the tie 5.005, the one in
  doubles lies just below it, and the dip is 5.
\<close>

lemma d594: "fmul (fdiv (fsub (18999 / 32) 625) 625) 100 = - (5635129033747333 / 2 ^ 50)"
  by (simp add: fl_defs)

lemma t594: "toFixed 2 (- (5635129033747333 / 2 ^ 50)) = - 5"
  by (simp add: toFixed_def)

lemma diff594: "diffValue (18999 / 32) 625 = Fin 5"
  by (simp only: diffValue_def d594 t594) (simp add: rnd_neg_numeral)

lemma maxDip_example: "maxDipPercentage 95 (\<lambda>p. if p = 30 then Some 100 else None) = Fin 5"
  by (simp add: maxDipPercentage_def dipScan_def maPeriods_def dipStep_def diff95)

lemma dipTiers_evaluate:
  "dipTiers (alerts (evaluate (Some nav) cur prev)) =
     (case maxDipPercentage nav cur of
        NaN \<Rightarrow> []
      | Fin d \<Rightarrow> (if d > 7 then [Exceptional] else if d > 5 then [Strong]
                  else if d > 3 then [Moderate] else [])
      | Inf \<Rightarrow> [Exceptional])"
  using maxDip_not_NaN [of nav cur]
  by (cases "maxDipPercentage nav cur")
     (simp_all add: evaluate_def Let_def dipTiers_append dipTiers_cross dipTiers_long
        dipTiers_simps dipTier_def STRONG_BUY_def GOOD_BUY_def MODERATE_BUY_def)

text \<open>
  Claim C6. An evaluation yields at most one dip alert, picked by strict comparisons from the
  strongest tier down: above 7 exceptional, else above 5 strong, else above 3 moderate, else
  none (an infinite dip, which a zero average gives, is above 7; without a latest value there
  is no alert at all). A dip of exactly 5, as for a value of 95 against a 30-day average of
  100, gives the moderate tier and not the strong one.
\<close>

theorem dip_tier_strict:
  "dipTiers (alerts (evaluate (Some nav) cur prev)) =
     (case maxDipPercentage nav cur of
        NaN \<Rightarrow> []
      | Fin d \<Rightarrow> (if d > 7 then [Exceptional] else if d > 5 then [Strong]
                  else if d > 3 then [Moderate] else [])
      | Inf \<Rightarrow> [Exceptional])
   \<and> alerts (evaluate None cur prev) = []
   \<and> maxDipPercentage 95 (\<lambda>p. if p = 30 then Some 100 else None) = Fin 5
   \<and> dipTiers (alerts (evaluate (Some 95) (\<lambda>p. if p = 30 then Some 100 else None) prev))
       = [Moderate]"
  using dipTiers_evaluate [of nav cur prev]
    dipTiers_evaluate [of 95 "\<lambda>p. if p = 30 then Some 100 else None" prev]
  by (simp add: maxDip_example) (simp add: evaluate_def)

lemma cross_in_alerts:
  "a \<in> {GoldenCross, DeathCross} \<Longrightarrow>
   a \<in> set (alerts (evaluate (Some nav) cur prev)) \<longleftrightarrow> a \<in> set (crossAlerts cur prev)"
  by (auto simp: evaluate_def Let_def longTermAlerts_def split: option.splits)

lemma cross_Some:
  "cur 30 = Some a \<Longrightarrow> cur 50 = Some b \<Longrightarrow> prev 30 = Some c \<Longrightarrow> prev 50 = Some d \<Longrightarrow>
   crossAlerts cur prev =
     (if a > b \<and> c \<le> d then [GoldenCross] else if a < b \<and> c \<ge> d then [DeathCross] else [])"
  by (simp add: crossAlerts_def)

lemma cross_None:
  "cur 30 = None \<or> cur 50 = None \<or> prev 30 = None \<or> prev 50 = None \<Longrightarrow>
   crossAlerts cur prev = []"
  by (auto simp: crossAlerts_def split: option.splits)

lemma golden_iff:
  "GoldenCross \<in> set (crossAlerts cur prev) \<longleftrightarrow>
     (\<exists>c30 c50 p30 p50. cur 30 = Some c30 \<and> cur 50 = Some c50 \<and> prev 30 = Some p30 \<and>
        prev 50 = Some p50 \<and> c30 > c50 \<and> p30 \<le> p50)"
proof (cases "cur 30 = None \<or> cur 50 = None \<or> prev 30 = None \<or> prev 50 = None")
  case True
  then show ?thesis using cross_None [OF True] by auto
next
  case False
  then obtain a b c d
    where h: "cur 30 = Some a" "cur 50 = Some b" "prev 30 = Some c" "prev 50 = Some d"
    by auto
  show ?thesis using cross_Some [OF h] h by auto
qed

lemma death_iff:
  "DeathCross \<in> set (crossAlerts cur prev) \<longleftrightarrow>
     (\<exists>c30 c50 p30 p50. cur 30 = Some c30 \<and> cur 50 = Some c50 \<and> prev 30 = Some p30 \<and>
        prev 50 = Some p50 \<and> c30 < c50 \<and> p30 \<ge> p50)"
proof (cases "cur 30 = None \<or> cur 50 = None \<or> prev 30 = None \<or> prev 50 = None")
  case True
  then show ?thesis using cross_None [OF True] by auto
next
  case False
  then obtain a b c d
    where h: "cur 30 = Some a" "cur 50 = Some b" "prev 30 = Some c" "prev 50 = Some d"
    by auto
  show ?thesis using cross_Some [OF h] h by auto
qed

lemma fundAnalysis_alerts:
  "alerts (snd (fundAnalysis pf dataRange newNavRow i)) =
   alerts (evaluate (pfCell pf (cellAt newNavRow (navStartIdx + i)))
            (currentFundMAs pf dataRange (navStartIdx + i)) (previousFundMAs pf dataRange i))"
  by (simp add: fundAnalysis_def Let_def)

lemma current30_latest:
  assumes "currentFundMAs pf (rs @ [newNavRow]) col 30 = Some v"
  shows "pfCell pf (cellAt newNavRow col) \<noteq> None"
proof -
  from assms have "computeMA pf (rs @ [newNavRow]) col 30 = Some v"
    by (simp add: currentFundMAs_def split: if_splits)
  from computeMA_Some_last [OF this] show ?thesis by simp
qed

text \<open>
  Claim C5. When the rows read back end with the row just appended, the analysis of a fund
  holds the golden-cross alert exactly when the current and the prior 30-day and 50-day
  averages are all available, the current 30-day average is above the current 50-day one and
  the prior 30-day average was at most the prior 50-day one; and the death-cross alert exactly
  when all four are available, the current 30-day average is below and the prior one was at
  least the prior 50-day one. So a tie of the prior averages counts as not yet crossed, and
  neither alert fires when one of the four averages is unavailable.
\<close>

theorem crossover_alerts:
  assumes "dataRange = rs @ [newNavRow]"
  shows "(GoldenCross \<in> set (alerts (snd (fundAnalysis pf dataRange newNavRow i))) \<longleftrightarrow>
           (\<exists>c30 c50 p30 p50.
              currentFundMAs pf dataRange (navStartIdx + i) 30 = Some c30 \<and>
              currentFundMAs pf dataRange (navStartIdx + i) 50 = Some c50 \<and>
              previousFundMAs pf dataRange i 30 = Some p30 \<and>
              previousFundMAs pf dataRange i 50 = Some p50 \<and> c30 > c50 \<and> p30 \<le> p50))
       \<and> (DeathCross \<in> set (alerts (snd (fundAnalysis pf dataRange newNavRow i))) \<longleftrightarrow>
           (\<exists>c30 c50 p30 p50.
              currentFundMAs pf dataRange (navStartIdx + i) 30 = Some c30 \<and>
              currentFundMAs pf dataRange (navStartIdx + i) 50 = Some c50 \<and>
              previousFundMAs pf dataRange i 30 = Some p30 \<and>
              previousFundMAs pf dataRange i 50 = Some p50 \<and> c30 < c50 \<and> p30 \<ge> p50))"
proof (cases "pfCell pf (cellAt newNavRow (navStartIdx + i))")
  case None
  then have "currentFundMAs pf dataRange (navStartIdx + i) 30 = None"
    using current30_latest [of pf rs newNavRow "navStartIdx + i"] assms
    by (cases "currentFundMAs pf dataRange (navStartIdx + i) 30") auto
  moreover have "alerts (snd (fundAnalysis pf dataRange newNavRow i)) = []"
    using None by (simp add: fundAnalysis_alerts evaluate_def)
  ultimately show ?thesis by simp
next
  case (Some nav)
  show ?thesis
    unfolding fundAnalysis_alerts Some
    using cross_in_alerts [of GoldenCross nav] cross_in_alerts [of DeathCross nav]
    by (simp add: golden_iff death_iff)
qed

theorem crossover_alerts_witness:
  "GoldenCross
     \<in> set (alerts (snd (fundAnalysis (\<lambda>s. None) (replicate 49 prevRow @ [newRow]) newRow 0)))
   \<and> DeathCross
     \<notin> set (alerts (snd (fundAnalysis (\<lambda>s. None) (replicate 49 prevRow @ [newRow]) newRow 0)))"
proof -
  have c30: "currentFundMAs (\<lambda>s. None) (replicate 49 prevRow @ [newRow]) navStartIdx 30 = Some 105"
    by (simp add: currentFundMAs_def maPeriods_def computeMA_def navsForMA_def sliceLast_def
          navStartIdx_def prevRow_def newRow_def cellAt_def pfCell_def toFixed_def s29
          fadd_def fdiv_def rnd_numeral)
  have c50: "currentFundMAs (\<lambda>s. None) (replicate 49 prevRow @ [newRow]) navStartIdx 50 = Some 103"
    by (simp add: currentFundMAs_def maPeriods_def computeMA_def navsForMA_def sliceLast_def
          navStartIdx_def prevRow_def newRow_def cellAt_def pfCell_def toFixed_def s49
          fadd_def fdiv_def rnd_numeral)
  have p30: "previousFundMAs (\<lambda>s. None) (replicate 49 prevRow @ [newRow]) 0 30 = Some 100"
    by (simp add: previousFundMAs_def maPeriods_def maStartIdx_def navStartIdx_def fundNames_def
          fundsToTrack_def nth_append prevRow_def cellAt_def pfCell_def upt_rec)
  have p50: "previousFundMAs (\<lambda>s. None) (replicate 49 prevRow @ [newRow]) 0 50 = Some 101"
    by (simp add: previousFundMAs_def maPeriods_def maStartIdx_def navStartIdx_def fundNames_def
          fundsToTrack_def nth_append prevRow_def cellAt_def pfCell_def upt_rec)
  show ?thesis
    using crossover_alerts [where dataRange = "replicate 49 prevRow @ [newRow]"
        and rs = "replicate 49 prevRow" and newNavRow = newRow and pf = "\<lambda>s. None" and i = 0]
    by (simp add: c30 c50 p30 p50)
qed

subsection \<open>The opportunity score\<close>

lemma d50: "fmul (fdiv (fsub 50 100) 100) 100 = - 50"
  by (simp add: fl_defs)

lemma diff50: "diffValue 50 100 = Fin 50"
  by (simp add: diffValue_def d50 toFixed_def rnd_neg_numeral)

lemma scan50: "dipScan 50 (\<lambda>p. if p = 30 then Some 100 else None) = (Fin 50, 0)"
  by (simp add: dipScan_def maPeriods_def dipStep_def diff50)

lemma dipWeight: "fmul (fdiv 50 10) PRICE_DIP = 2"
  by (simp add: PRICE_DIP_def fl_defs)

lemma score50: "scoreOf (Fin 50) (Fin 0) 0 = Fin 200"
  by (simp add: scoreOf_def xadd_def dipWeight) (simp add: fl_defs rnd_zero)

lemma scoreOf_Fin:
  "scoreOf (Fin d) (Fin t) a =
     Fin (fmul (fadd (fadd (fmul (fdiv d 10) PRICE_DIP) (fmul t TREND_STRENGTH))
                     (fmul (fdiv (real a) 3) MA_ALIGNMENT)) 100)"
  by (simp add: scoreOf_def xadd_def)

lemma weights_nonneg: "0 \<le> PRICE_DIP" "0 \<le> TREND_STRENGTH" "0 \<le> MA_ALIGNMENT"
  by (simp_all add: PRICE_DIP_def TREND_STRENGTH_def MA_ALIGNMENT_def rnd_nonneg)

text \<open>The score does not fall when the dip grows, and a dip of at most 10 keeps it in range.\<close>

lemma scoreOf_mono:
  "d \<le> d' \<Longrightarrow> scoreOf (Fin d) (Fin t) a = Fin x \<Longrightarrow> scoreOf (Fin d') (Fin t) a = Fin x' \<Longrightarrow>
   x \<le> x'"
  unfolding scoreOf_Fin
  by (auto intro!: fmul_mono fadd_mono fdiv_mono weights_nonneg)

lemma full_score:
  "fmul (fadd (fadd (fmul (fdiv 10 10) PRICE_DIP) (fmul 1 TREND_STRENGTH))
              (fmul (fdiv 3 3) MA_ALIGNMENT)) 100 = 100"
proof -
  have w: "PRICE_DIP = 3602879701896397 / 2 ^ 53" "TREND_STRENGTH = 5404319552844595 / 2 ^ 54"
    "MA_ALIGNMENT = 5404319552844595 / 2 ^ 54"
    by (simp_all add: PRICE_DIP_def TREND_STRENGTH_def MA_ALIGNMENT_def fl_defs)
  have 1: "fmul (fdiv 10 10) PRICE_DIP = 3602879701896397 / 2 ^ 53"
    unfolding w by (simp add: fl_defs)
  have 2: "fmul 1 TREND_STRENGTH = 5404319552844595 / 2 ^ 54"
    unfolding w by (simp add: fl_defs)
  have 3: "fmul (fdiv 3 3) MA_ALIGNMENT = 5404319552844595 / 2 ^ 54"
    unfolding w by (simp add: fl_defs)
  have 4: "fadd (3602879701896397 / 2 ^ 53) (5404319552844595 / 2 ^ 54) = 3152519739159347 / 2 ^ 52"
    by (simp add: fl_defs)
  have 5: "fadd (3152519739159347 / 2 ^ 52) (5404319552844595 / 2 ^ 54) = 1"
    by (simp add: fl_defs)
  have 6: "fmul 1 100 = 100"
    by (simp add: fl_defs)
  show ?thesis by (simp only: 1 2 3 4 5 6)
qed

lemma scoreOf_small_dip:
  assumes "0 \<le> d" "d \<le> 10" "0 \<le> t" "t \<le> 1" "a \<le> 3" "scoreOf (Fin d) (Fin t) a = Fin x"
  shows "0 \<le> x \<and> x \<le> 100"
proof -
  let ?s = "\<lambda>d t a. fmul (fadd (fadd (fmul (fdiv d 10) PRICE_DIP) (fmul t TREND_STRENGTH))
                     (fmul (fdiv a 3) MA_ALIGNMENT)) 100"
  from assms(6) have x: "x = ?s d t (real a)" by (simp add: scoreOf_Fin)
  have a: "0 \<le> real a" "real a \<le> 3" using assms(5) by simp_all
  have "0 \<le> ?s d t (real a)"
    using assms(1,3) a(1)
    by (intro fmul_nonneg fadd_nonneg fdiv_nonneg weights_nonneg) simp_all
  moreover have "?s d t (real a) \<le> ?s 10 1 3"
    using assms(2,4) a(2)
    by (intro fmul_mono fadd_mono fdiv_mono weights_nonneg) simp_all
  ultimately show ?thesis unfolding x by (simp only: full_score)
qed

text \<open>
  Claim C2. The score is meant to lie between 0 and 100. The dip factor \<open>maxDipPercentage / 10\<close>
  is not capped, though, while the trend factor is: a value of 50 against a 30-day average of
  100, a dip of 50 percent, scores 200, and that is the score the alert prints.
\<close>

theorem opportunity_score_exceeds_100:
  "opportunityScore 50 (\<lambda>p. if p = 30 then Some 100 else None) = Fin 200
   \<and> alerts (evaluate (Some 50) (\<lambda>p. if p = 30 then Some 100 else None) (\<lambda>p. None))
       = [Dip Exceptional (Fin 200) (Fin 50)]"
  by (simp add: evaluate_def opportunityScore_def maAlignmentScore_def trendScore_def
      maxDipPercentage_def scan50 score50 dipTier_def STRONG_BUY_def
      crossAlerts_def longTermAlerts_def)

section \<open>Properties of the first pass\<close>

lemma firstPassFrom_none:
  "(\<forall>j\<in>set offs. \<not> acceptable e j) \<Longrightarrow> firstPassFrom e offs = (None, tradingOffsets e offs)"
  by (induction offs)
     (auto simp: acceptable_def tradingOffsets_def Let_def split: fetch_result.splits)

lemma firstPassFrom_first:
  "(\<forall>j\<in>set pre. \<not> acceptable e j) \<Longrightarrow> acceptable e i \<Longrightarrow>
   firstPassFrom e (pre @ i # post) =
     (Some (daysAgo e i, reportLines e i), tradingOffsets e (pre @ [i]))"
  by (induction pre)
     (auto simp: acceptable_def tradingOffsets_def reportLines_def Let_def
           split: fetch_result.splits)

lemma firstPassFrom_queried:
  "set (snd (firstPassFrom e offs)) \<subseteq> set (tradingOffsets e offs)"
  by (induction offs) (auto simp: tradingOffsets_def Let_def split: fetch_result.splits)

lemma upt_split: "a \<le> i \<Longrightarrow> i < b \<Longrightarrow> [a ..< b] = [a ..< i] @ i # [Suc i ..< b]"
  by (metis le_Suc_ex less_imp_le_nat upt_add_eq_append upt_conv_Cons)

lemma rows_setHeader: "rows (setHeader s) = rows s"
  by (simp add: setHeader_def)

lemma setHeader_idem: "header s = headerRow \<Longrightarrow> setHeader s = s"
  by (simp add: setHeader_def)

lemma run_nodata:
  "fst (firstPass e) = None \<Longrightarrow>
   getNAVAndAnalyze e (Some s) =
     \<lparr>outcome = NoDataAlert, final = Some (setHeader s), queried = snd (firstPass e),
      signals = []\<rparr>"
  by (simp add: getNAVAndAnalyze_def)

text \<open>
  Claim C8. The first pass sends requests only for offsets from 1 to 5 that fall on trading
  days, so never for today and never for a weekend or holiday. It walks the offsets upward:
  if \<open>i\<close> is the first acceptable offset, the pass returns the date and the lines of that
  response, having asked exactly for the trading days among the offsets 1 to \<open>i\<close>; if no
  offset from 1 to 5 is acceptable, it returns nothing, and the run ends with the no-data
  notice and the data rows it started with.
\<close>

theorem first_pass_walk:
  "set (snd (firstPass e)) \<subseteq> {i. 1 \<le> i \<and> i \<le> 5 \<and> \<not> isWeekendOrHoliday (daysAgo e i)}
   \<and> (1 \<le> i \<and> i \<le> 5 \<and> acceptable e i \<and> (\<forall>j. 1 \<le> j \<and> j < i \<longrightarrow> \<not> acceptable e j) \<longrightarrow>
        firstPass e = (Some (daysAgo e i, reportLines e i), tradingOffsets e [1 ..< Suc i]))
   \<and> ((\<forall>j. 1 \<le> j \<and> j \<le> 5 \<longrightarrow> \<not> acceptable e j) \<longrightarrow>
        firstPass e = (None, tradingOffsets e [1 ..< 6])
        \<and> getNAVAndAnalyze e (Some s) =
            \<lparr>outcome = NoDataAlert, final = Some (setHeader s),
             queried = tradingOffsets e [1 ..< 6], signals = []\<rparr>
        \<and> rows (setHeader s) = rows s)"
proof (intro conjI impI)
  show "set (snd (firstPass e)) \<subseteq> {i. 1 \<le> i \<and> i \<le> 5 \<and> \<not> isWeekendOrHoliday (daysAgo e i)}"
    using firstPassFrom_queried [of e "[1 ..< 6]"]
    by (auto simp: firstPass_def tradingOffsets_def)
next
  assume a: "1 \<le> i \<and> i \<le> 5 \<and> acceptable e i \<and> (\<forall>j. 1 \<le> j \<and> j < i \<longrightarrow> \<not> acceptable e j)"
  then have sp: "[1 ..< 6] = [1 ..< i] @ i # [Suc i ..< 6]"
    by (intro upt_split) auto
  have "firstPassFrom e ([1 ..< i] @ i # [Suc i ..< 6]) =
          (Some (daysAgo e i, reportLines e i), tradingOffsets e ([1 ..< i] @ [i]))"
    using a by (intro firstPassFrom_first) auto
  moreover have "[1 ..< i] @ [i] = [1 ..< Suc i]" using a by simp
  ultimately show "firstPass e =
      (Some (daysAgo e i, reportLines e i), tradingOffsets e [1 ..< Suc i])"
    unfolding firstPass_def sp by simp
next
  assume n: "\<forall>j. 1 \<le> j \<and> j \<le> 5 \<longrightarrow> \<not> acceptable e j"
  then show fp: "firstPass e = (None, tradingOffsets e [1 ..< 6])"
    unfolding firstPass_def by (intro firstPassFrom_none) auto
  then show "getNAVAndAnalyze e (Some s) =
            \<lparr>outcome = NoDataAlert, final = Some (setHeader s),
             queried = tradingOffsets e [1 ..< 6], signals = []\<rparr>"
    using run_nodata [of e s] by simp
  show "rows (setHeader s) = rows s" by (rule rows_setHeader)
qed

subsection \<open>The example runs\<close>

lemmas ex_defs = envA_def envB_def envNone_def fetchA_def fetchB_def demoBack_def demoDays_def
  dec10_def dec11_def dec12_def dec13_def dec14_def dec15_def
  demoParse_def fullReport_def partialReport_def reportLine_def demoMinusDays_def

lemmas cal_defs = isWeekendOrHoliday_def getMarketHolidays_def validResponse_def

lemma layout:
  "length fundNames = 5" "numMACols = 15" "numAlertCols = 5" "maStartIdx = 6"
  "alertStartIdx = 21" "navStartIdx = 1"
  by (simp_all add: fundNames_def fundsToTrack_def numMACols_def numAlertCols_def maPeriods_def
      maStartIdx_def alertStartIdx_def navStartIdx_def)

lemma setHeader_ex: "setHeader emptySheet = emptySheet" "setHeader doneSheet = doneSheet"
  by (simp_all add: setHeader_def emptySheet_def doneSheet_def)

lemma firstPass_envA: "firstPass envA = (Some (dec11, splitOn (CHR 0x0A) fullReport), [3, 4])"
  by (simp add: firstPass_def upt_rec ex_defs cal_defs Let_def)

lemma firstPass_envB: "firstPass envB = (Some (dec12, splitOn (CHR 0x0A) partialReport), [1])"
  by (simp add: firstPass_def upt_rec ex_defs cal_defs Let_def)

lemma parseFloat_ex: "parseFloat envA = demoParse" "parseFloat envB = demoParse"
  by (simp_all add: envA_def envB_def)

lemma buildNavRow_full: "buildNavRow demoParse (splitOn (CHR 0x0A) fullReport) dec11 = fullRow"
  by (simp add: buildNavRow_def fundsToTrack_def firstPassNav_def ex_defs partAt_def orNum_def
       truthy_def navCell_def Let_def fullRow_def)

lemma buildNavRow_partial:
  "buildNavRow demoParse (splitOn (CHR 0x0A) partialReport) dec12 = partialRow"
  by (simp add: buildNavRow_def fundsToTrack_def firstPassNav_def ex_defs partAt_def orNum_def
       truthy_def navCell_def Let_def partialRow_def)

lemma hasNA_full: "\<not> hasNAValues fullRow"
  by (simp add: hasNAValues_def fullRow_def layout cellAt_def upt_rec)

lemma hasNA_partial: "hasNAValues partialRow"
  by (simp add: hasNAValues_def partialRow_def layout cellAt_def upt_rec)

theorem first_pass_walk_witness:
  "firstPass envA = (Some (dec11, splitOn (CHR 0x0A) fullReport), [3, 4])
   \<and> getNAVAndAnalyze envNone (Some emptySheet) =
       \<lparr>outcome = NoDataAlert, final = Some emptySheet, queried = [3, 4, 5], signals = []\<rparr>"
proof -
  have a: "1 \<le> (4::nat) \<and> (4::nat) \<le> 5 \<and> acceptable envA 4
      \<and> (\<forall>j. 1 \<le> j \<and> j < 4 \<longrightarrow> \<not> acceptable envA j)"
  proof -
    have "\<not> acceptable envA 1" "\<not> acceptable envA 2" "\<not> acceptable envA 3" "acceptable envA 4"
      by (simp_all add: acceptable_def ex_defs cal_defs)
    moreover have "j = 1 \<or> j = 2 \<or> j = 3" if "1 \<le> j \<and> j < 4" for j :: nat
      using that by auto
    ultimately show ?thesis by auto
  qed
  have n: "\<forall>j. 1 \<le> j \<and> j \<le> 5 \<longrightarrow> \<not> acceptable envNone j"
    by (simp add: acceptable_def envNone_def)
  have t: "tradingOffsets envA [Suc 0 ..< 5] = [3, 4]"
    "tradingOffsets envNone [Suc 0 ..< 6] = [3, 4, 5]"
    by (simp_all add: tradingOffsets_def upt_rec ex_defs cal_defs)
  have r: "daysAgo envA 4 = dec11" "reportLines envA 4 = splitOn (CHR 0x0A) fullReport"
    by (simp_all add: reportLines_def ex_defs)
  show ?thesis
    using first_pass_walk [of envA 4 emptySheet] first_pass_walk [of envNone 1 emptySheet] a n
    by (simp add: t r setHeader_ex)
qed

section \<open>Properties of the run\<close>

lemma run_duplicate:
  "fst (firstPass e) = Some (d, raw) \<Longrightarrow> ymd d \<in> set (map (\<lambda>r. ymd (rdate r)) (rows s)) \<Longrightarrow>
   getNAVAndAnalyze e (Some s) =
     \<lparr>outcome = DuplicateSkipped, final = Some (setHeader s), queried = snd (firstPass e),
      signals = []\<rparr>"
  by (simp add: getNAVAndAnalyze_def Let_def rows_setHeader)

lemma delete_append: "deleteLastRow (appendRow s r) = s"
  by (simp add: deleteLastRow_def appendRow_def)

lemma run_incomplete:
  "fst (firstPass e) = Some (d, raw) \<Longrightarrow> ymd d \<notin> set (map (\<lambda>r. ymd (rdate r)) (rows s)) \<Longrightarrow>
   hasNAValues (buildNavRow (parseFloat e) raw d) \<Longrightarrow>
   getNAVAndAnalyze e (Some s) =
     \<lparr>outcome = RetryReferenceError, final = Some (setHeader s), queried = snd (firstPass e),
      signals = []\<rparr>"
  by (simp add: getNAVAndAnalyze_def Let_def rows_setHeader delete_append)

lemma setLast_append:
  "setLastRowValues k vals (s\<lparr>rows := rs @ [r]\<rparr>) = s\<lparr>rows := rs @ [setCellsFrom k vals r]\<rparr>"
  by (simp add: setLastRowValues_def)

lemma run_completed:
  assumes "fst (firstPass e) = Some (d, raw)"
    "ymd d \<notin> set (map (\<lambda>r. ymd (rdate r)) (rows s))"
    "\<not> hasNAValues (buildNavRow (parseFloat e) raw d)"
  shows "outcome (getNAVAndAnalyze e (Some s)) = Completed"
    and "final (getNAVAndAnalyze e (Some s)) =
       Some ((setHeader s)\<lparr>rows := rows s @
          [completedRow e (rows s @ [buildNavRow (parseFloat e) raw d])
             (buildNavRow (parseFloat e) raw d)]\<rparr>)"
  using assms
  by (simp_all add: getNAVAndAnalyze_def Let_def rows_setHeader appendRow_def setLast_append
        completedRow_def)

lemma cellAt_setCellsFrom_below:
  assumes "j < k"
  shows "cellAt (setCellsFrom k vals r) j = cellAt r j"
proof (cases "j = 0")
  case True
  then show ?thesis by (simp add: cellAt_def)
next
  case False
  define n where "n = k - 1 + length vals - length (cells r)"
  define cs where "cs = cells r @ replicate n (Str [])"
  define rest where "rest = vals @ drop (k - 1 + length vals) cs"
  have lcs: "k - 1 \<le> length cs" by (simp add: cs_def n_def)
  have j: "j - 1 < k - 1" using assms False by simp
  have c: "cells (setCellsFrom k vals r) = take (k - 1) cs @ rest"
    by (simp add: setCellsFrom_def Let_def cs_def n_def rest_def)
  have lt: "length (take (k - 1) cs) = k - 1" using lcs by simp
  have len: "j \<le> length (cells (setCellsFrom k vals r))"
    unfolding c using j lt by simp
  have "cells (setCellsFrom k vals r) ! (j - 1) = take (k - 1) cs ! (j - 1)"
    unfolding c using j lt by (simp add: nth_append)
  also have "\<dots> = cs ! (j - 1)" using j by simp
  also have "\<dots> = (if j - 1 < length (cells r) then cells r ! (j - 1) else Str [])"
  proof (cases "j - 1 < length (cells r)")
    case True
    then show ?thesis by (simp add: cs_def nth_append)
  next
    case False
    have "j - 1 - length (cells r) < n" using j False lcs by (simp add: cs_def)
    then show ?thesis using False by (simp add: cs_def nth_append)
  qed
  finally show ?thesis using False len by (auto simp: cellAt_def)
qed

lemma cellAt_completedRow:
  "i < length fundNames \<Longrightarrow>
   cellAt (completedRow e dr r) (navStartIdx + i) = cellAt r (navStartIdx + i)"
  by (simp add: completedRow_def cellAt_setCellsFrom_below alertStartIdx_def maStartIdx_def)

lemma cellAt_buildNavRow:
  "i < length fundNames \<Longrightarrow>
   cellAt (buildNavRow pf raw d) (navStartIdx + i) =
     navCell (firstPassNav pf raw (snd (fundsToTrack ! i)))"
  by (simp add: buildNavRow_def cellAt_def navStartIdx_def fundNames_def nth_append)

lemma hasNAValues_iff:
  "hasNAValues r \<longleftrightarrow> (\<exists>i<length fundNames. cellAt r (navStartIdx + i) = Str ''N/A'')"
  by (auto simp: hasNAValues_def list_ex_iff)

lemma buildNavRow_complete:
  assumes "\<not> hasNAValues (buildNavRow pf raw d)" "i < length fundNames"
  shows "\<exists>v. cellAt (buildNavRow pf raw d) (navStartIdx + i) = Num v"
proof -
  have "cellAt (buildNavRow pf raw d) (navStartIdx + i) \<noteq> Str ''N/A''"
    using assms by (auto simp: hasNAValues_iff)
  then show ?thesis
    unfolding cellAt_buildNavRow [OF assms(2)] by (simp add: navCell_def split: option.splits)
qed

lemma completed_full: "completedRow envA [fullRow] fullRow = doneRow"
  by (simp add: completedRow_def layout upt_rec fundAnalysis_def computeMA_def maPeriods_def
      maCell_def alertCell_def evaluate_def fullRow_def cellAt_def pfCell_def Let_def
      maxDipPercentage_def dipScan_def dipStep_def currentFundMAs_def dipTier_def crossAlerts_def
      longTermAlerts_def STRONG_BUY_def GOOD_BUY_def MODERATE_BUY_def setCellsFrom_def doneRow_def
      eval_nat_numeral)

text \<open>
  Claim C7. When the date the first pass resolves is already the date of a stored row, the run
  ends as a skipped duplicate: nothing is appended, the data rows are the ones it started
  with, and a sheet that already carries the header is left exactly as it was.
\<close>

theorem duplicate_date_no_mutation:
  "fst (firstPass e) = Some (d, raw) \<Longrightarrow> ymd d \<in> set (map (\<lambda>r. ymd (rdate r)) (rows s)) \<Longrightarrow>
   outcome (getNAVAndAnalyze e (Some s)) = DuplicateSkipped
   \<and> final (getNAVAndAnalyze e (Some s)) = Some (setHeader s)
   \<and> rows (setHeader s) = rows s
   \<and> (header s = headerRow \<longrightarrow> setHeader s = s)"
  using run_duplicate [of e d raw s] by (simp add: rows_setHeader setHeader_idem)

theorem duplicate_date_no_mutation_witness:
  "outcome (getNAVAndAnalyze envA (Some doneSheet)) = DuplicateSkipped
   \<and> final (getNAVAndAnalyze envA (Some doneSheet)) = Some doneSheet"
proof -
  have fp: "fst (firstPass envA) = Some (dec11, splitOn (CHR 0x0A) fullReport)"
    by (simp add: firstPass_envA)
  have d: "ymd dec11 \<in> set (map (\<lambda>r. ymd (rdate r)) (rows doneSheet))"
    by (simp add: doneSheet_def doneRow_def)
  show ?thesis
    using duplicate_date_no_mutation [OF fp d] by (simp add: setHeader_ex)
qed

text \<open>
  Claim C10. When the first accepted report gives a row in which some fund is marked
  \<open>N/A\<close>, the run appends that row, deletes it again and stops with the ReferenceError of the
  retry loop's initialiser: the sheet has the rows it started with, no replacement row is
  appended, and the only requests of the run are those of the first pass, for offsets from 1
  to 5.
\<close>

theorem incomplete_row_stops_run:
  assumes "fst (firstPass e) = Some (d, raw)"
    and "ymd d \<notin> set (map (\<lambda>r. ymd (rdate r)) (rows s))"
    and "\<exists>i<length fundNames.
           cellAt (buildNavRow (parseFloat e) raw d) (navStartIdx + i) = Str ''N/A''"
  shows "getNAVAndAnalyze e (Some s) =
       \<lparr>outcome = RetryReferenceError,
        final = Some (deleteLastRow (appendRow (setHeader s) (buildNavRow (parseFloat e) raw d))),
        queried = snd (firstPass e), signals = []\<rparr>
     \<and> deleteLastRow (appendRow (setHeader s) (buildNavRow (parseFloat e) raw d)) = setHeader s
     \<and> rows (setHeader s) = rows s
     \<and> set (snd (firstPass e)) \<subseteq> {1 .. 5}"
proof -
  have h: "hasNAValues (buildNavRow (parseFloat e) raw d)"
    using assms(3) by (simp add: hasNAValues_iff)
  have q: "set (snd (firstPass e)) \<subseteq> {1 .. 5}"
    using firstPassFrom_queried [of e "[1 ..< 6]"] by (auto simp: firstPass_def tradingOffsets_def)
  show ?thesis
    using run_incomplete [OF assms(1) assms(2) h] q by (simp add: delete_append rows_setHeader)
qed

theorem incomplete_row_stops_run_witness:
  "getNAVAndAnalyze envB (Some emptySheet) =
     \<lparr>outcome = RetryReferenceError, final = Some emptySheet, queried = [1], signals = []\<rparr>"
proof -
  have fp: "fst (firstPass envB) = Some (dec12, splitOn (CHR 0x0A) partialReport)"
    by (simp add: firstPass_envB)
  have nd: "ymd dec12 \<notin> set (map (\<lambda>r. ymd (rdate r)) (rows emptySheet))"
    by (simp add: emptySheet_def)
  have na: "\<exists>i<length fundNames.
      cellAt (buildNavRow (parseFloat envB) (splitOn (CHR 0x0A) partialReport) dec12)
        (navStartIdx + i) = Str ''N/A''"
    using hasNA_partial by (simp add: parseFloat_ex buildNavRow_partial hasNAValues_iff)
  show ?thesis
    using incomplete_row_stops_run [OF fp nd na] by (simp add: firstPass_envB setHeader_ex)
qed

text \<open>
  Claim C4. After an incomplete first row the resolver is meant to go on to earlier days with
  the wider scan and to return the first complete row. On Saturday the 13th, with a report
  for Friday that lacks one fund and a complete report for Thursday, the run deletes Friday's
  row and stops with the ReferenceError; Thursday, one day further back and acceptable, with
  a row that has every value, is never asked for.
\<close>

theorem retry_never_runs:
  "getNAVAndAnalyze envB (Some emptySheet) =
     \<lparr>outcome = RetryReferenceError, final = Some emptySheet, queried = [1], signals = []\<rparr>
   \<and> acceptable envB 2
   \<and> buildNavRow (parseFloat envB) (reportLines envB 2) (daysAgo envB 2) = fullRow
   \<and> \<not> hasNAValues fullRow"
proof -
  have fp: "fst (firstPass envB) = Some (dec12, splitOn (CHR 0x0A) partialReport)"
    by (simp add: firstPass_envB)
  have nd: "ymd dec12 \<notin> set (map (\<lambda>r. ymd (rdate r)) (rows emptySheet))"
    by (simp add: emptySheet_def)
  have na: "hasNAValues (buildNavRow (parseFloat envB) (splitOn (CHR 0x0A) partialReport) dec12)"
    using hasNA_partial by (simp add: parseFloat_ex buildNavRow_partial)
  have r: "daysAgo envB 2 = dec11" "reportLines envB 2 = splitOn (CHR 0x0A) fullReport"
    by (simp_all add: reportLines_def ex_defs)
  have a: "acceptable envB 2" by (simp add: acceptable_def ex_defs cal_defs)
  show ?thesis
    using run_incomplete [OF fp nd na] a hasNA_full
    by (simp add: firstPass_envB setHeader_ex r parseFloat_ex buildNavRow_full)
qed

text \<open>
  Claim C3. The daily run keeps the series free of missing values: if no stored row has a
  fund marked \<open>N/A\<close> before the run, none has after it, however the run ends. A run that
  completes adds one row at the end, in which every fund has a number; any other run leaves
  the data rows as they were.
\<close>

theorem no_missing_value_persisted:
  assumes "\<forall>r\<in>set (rows s). \<forall>i<length fundNames. cellAt r (navStartIdx + i) \<noteq> Str ''N/A''"
    and "final (getNAVAndAnalyze e (Some s)) = Some s'"
  shows "(\<forall>r\<in>set (rows s'). \<forall>i<length fundNames. cellAt r (navStartIdx + i) \<noteq> Str ''N/A'')
     \<and> (outcome (getNAVAndAnalyze e (Some s)) = Completed \<longrightarrow>
          (\<exists>r. rows s' = rows s @ [r]
             \<and> (\<forall>i<length fundNames. \<exists>v. cellAt r (navStartIdx + i) = Num v)))
     \<and> (outcome (getNAVAndAnalyze e (Some s)) \<noteq> Completed \<longrightarrow> rows s' = rows s)"
proof (cases "fst (firstPass e)")
  case None
  from run_nodata [OF None, of s] assms show ?thesis by (auto simp: rows_setHeader)
next
  case (Some p)
  obtain d raw where p: "p = (d, raw)" by (cases p)
  note fp = Some [unfolded p]
  show ?thesis
  proof (cases "ymd d \<in> set (map (\<lambda>r. ymd (rdate r)) (rows s))")
    case True
    from run_duplicate [OF fp True] assms show ?thesis by (auto simp: rows_setHeader)
  next
    case nd: False
    show ?thesis
    proof (cases "hasNAValues (buildNavRow (parseFloat e) raw d)")
      case True
      from run_incomplete [OF fp nd True] assms show ?thesis by (auto simp: rows_setHeader)
    next
      case False
      let ?new = "buildNavRow (parseFloat e) raw d"
      let ?r = "completedRow e (rows s @ [?new]) ?new"
      from run_completed [OF fp nd False] assms(2)
      have o: "outcome (getNAVAndAnalyze e (Some s)) = Completed"
        and s': "s' = (setHeader s)\<lparr>rows := rows s @ [?r]\<rparr>" by simp_all
      have num: "\<forall>i<length fundNames. \<exists>v. cellAt ?r (navStartIdx + i) = Num v"
        using buildNavRow_complete [OF False] by (simp add: cellAt_completedRow)
      then have "\<forall>i<length fundNames. cellAt ?r (navStartIdx + i) \<noteq> Str ''N/A''" by auto
      then show ?thesis using assms(1) o num by (auto simp: s')
    qed
  qed
qed

theorem no_missing_value_persisted_witness:
  "final (getNAVAndAnalyze envA (Some emptySheet)) = Some doneSheet
   \<and> outcome (getNAVAndAnalyze envA (Some emptySheet)) = Completed
   \<and> rows doneSheet = [doneRow] \<and> \<not> hasNAValues doneRow"
proof -
  have fp: "fst (firstPass envA) = Some (dec11, splitOn (CHR 0x0A) fullReport)"
    by (simp add: firstPass_envA)
  have nd: "ymd dec11 \<notin> set (map (\<lambda>r. ymd (rdate r)) (rows emptySheet))"
    by (simp add: emptySheet_def)
  have na: "\<not> hasNAValues (buildNavRow (parseFloat envA) (splitOn (CHR 0x0A) fullReport) dec11)"
    by (simp add: parseFloat_ex buildNavRow_full hasNA_full)
  have re: "rows emptySheet = []" by (simp add: emptySheet_def)
  have ds: "emptySheet\<lparr>rows := [doneRow]\<rparr> = doneSheet"
    by (simp add: emptySheet_def doneSheet_def)
  have f: "final (getNAVAndAnalyze envA (Some emptySheet)) = Some doneSheet"
    using run_completed(2) [OF fp nd na]
    by (simp add: parseFloat_ex buildNavRow_full setHeader_ex re completed_full ds)
  have p: "\<forall>r\<in>set (rows emptySheet). \<forall>i<length fundNames.
      cellAt r (navStartIdx + i) \<noteq> Str ''N/A''"
    by (simp add: emptySheet_def)
  show ?thesis
    using no_missing_value_persisted [OF p f] f run_completed(1) [OF fp nd na]
    by (simp add: hasNAValues_iff doneSheet_def)
qed

section \<open>Properties of the gap repair\<close>

lemma fundUpdatesFor_alt:
  "fundUpdatesFor e data index code =
     List.map_filter (\<lambda>i. map_option (\<lambda>v. (i + 2, index, v)) (repairCell e data index code i))
       [0 ..< length data]"
  unfolding fundUpdatesFor_def repairCell_def
  by (rule arg_cong [where f = "\<lambda>f. List.map_filter f [0 ..< length data]"])
     (auto simp: Let_def)

lemma cellAt_zero: "cellAt r 0 = Str []"
  by (simp add: cellAt_def)

lemma repairCell_index: "repairCell e data index code i = Some v \<Longrightarrow> 2 \<le> index"
proof (rule ccontr)
  assume a: "repairCell e data index code i = Some v" and "\<not> 2 \<le> index"
  then have "index - 1 = 0" by simp
  with a show False by (simp add: repairCell_def cellAt_zero split: if_splits)
qed

lemma repairCell_NA:
  "repairCell e data index code i = Some v \<Longrightarrow> cellAt (data ! i) (index - 1) = Str ''N/A''"
  by (simp add: repairCell_def split: if_splits)

lemma rdate_setCellsFrom: "rdate (setCellsFrom k vals r) = rdate r"
  by (simp add: setCellsFrom_def Let_def)

text \<open>Writing one cell changes that cell and no other.\<close>

lemma cellAt_setCell:
  assumes "1 \<le> k"
  shows "cellAt (setCellsFrom k [x] r) j = (if j = k then x else cellAt r j)"
proof -
  define n where "n = k - 1 + 1 - length (cells r)"
  define cs where "cs = cells r @ replicate n (Str [])"
  have lcs: "k \<le> length cs" using assms by (simp add: cs_def n_def)
  have c: "cells (setCellsFrom k [x] r) = take (k - 1) cs @ x # drop k cs"
    using assms by (simp add: setCellsFrom_def Let_def cs_def n_def)
  have c': "cells (setCellsFrom k [x] r) = cs[k - 1 := x]"
    unfolding c using lcs assms by (simp add: upd_conv_take_nth_drop)
  have csn: "cs ! m = (if m < length (cells r) then cells r ! m else Str [])"
    if "m < length cs" for m
    using that by (auto simp: cs_def nth_append)
  have lcs2: "length cs = max (length (cells r)) k" using assms by (simp add: cs_def n_def)
  show ?thesis
  proof (cases "j = 0 \<or> length cs < j")
    case True
    then show ?thesis using assms lcs lcs2 by (auto simp: cellAt_def c')
  next
    case False
    then have j: "0 < j" "j \<le> length cs" by auto
    then have "cellAt (setCellsFrom k [x] r) j = cs[k - 1 := x] ! (j - 1)"
      by (simp add: cellAt_def c')
    also have "\<dots> = (if j = k then x else cs ! (j - 1))"
      using j assms lcs by (auto simp: nth_list_update)
    also have "cs ! (j - 1) = cellAt r j"
      using j csn [of "j - 1"] by (auto simp: cellAt_def)
    finally show ?thesis by simp
  qed
qed

lemma header_setValue: "header (setValue t u) = header t"
  by (cases u) (simp add: setValue_def)

lemma length_rows_setValue: "length (rows (setValue t u)) = length (rows t)"
  by (cases u) (simp add: setValue_def)

lemma header_foldl_setValue: "header (foldl setValue t us) = header t"
  by (induction us arbitrary: t) (simp_all add: header_setValue)

lemma length_foldl_setValue: "length (rows (foldl setValue t us)) = length (rows t)"
  by (induction us arbitrary: t) (simp_all add: length_rows_setValue)

text \<open>The rows after the updates of the first \<open>n\<close> rows have been written.\<close>

lemma pass_rows:
  assumes "n \<le> length (rows t)"
  shows "\<forall>j<length (rows t).
           rows (foldl setValue t
                  (List.map_filter (\<lambda>i. map_option (\<lambda>v. (i + 2, index, v)) (f i)) [0 ..< n])) ! j
           = (if j < n \<and> 2 \<le> index then repairRow index (rows t ! j) (f j) else rows t ! j)"
  using assms
proof (induction n)
  case 0
  then show ?case by simp
next
  case (Suc n)
  let ?g = "\<lambda>i. map_option (\<lambda>v. (i + 2, index, v)) (f i)"
  let ?t = "foldl setValue t (List.map_filter ?g [0 ..< n])"
  have len: "length (rows ?t) = length (rows t)" by (rule length_foldl_setValue)
  have IH: "\<forall>j<length (rows t). rows ?t ! j =
       (if j < n \<and> 2 \<le> index then repairRow index (rows t ! j) (f j) else rows t ! j)"
    using Suc by simp
  have n: "n < length (rows t)" using Suc.prems by simp
  show ?case
  proof (cases "f n")
    case None
    then have "List.map_filter ?g [0 ..< Suc n] = List.map_filter ?g [0 ..< n]"
      by (simp add: List.map_filter_def)
    then show ?thesis using IH None by (auto simp: repairRow_def less_Suc_eq)
  next
    case (Some v)
    then have "List.map_filter ?g [0 ..< Suc n]
                 = List.map_filter ?g [0 ..< n] @ [(n + 2, index, v)]"
      by (simp add: List.map_filter_def)
    then have e: "foldl setValue t (List.map_filter ?g [0 ..< Suc n])
                    = setValue ?t (n + 2, index, v)"
      by simp
    show ?thesis
    proof (cases "2 \<le> index")
      case True
      have "rows (setValue ?t (n + 2, index, v)) =
              (rows ?t)[n := setCellsFrom (index - 1) [Num v] (rows ?t ! n)]"
        using True n len by (simp add: setValue_def)
      then show ?thesis unfolding e using IH n True Some len
        by (auto simp: nth_list_update repairRow_def less_Suc_eq)
    next
      case False
      then have "setValue ?t (n + 2, index, v) = ?t" by (simp add: setValue_def)
      then show ?thesis unfolding e using IH False by simp
    qed
  qed
qed

lemma fst_fundPass:
  "fst (fundPass e data st (name, index, code)) =
     foldl setValue (fst st) (fundUpdatesFor e data index code)"
  by (simp add: fundPass_def Let_def)

text \<open>One round of the loop over the funds, cell by cell.\<close>

lemma fundPass_cells:
  assumes "length (rows t) = length data"
    and "t' = fst (fundPass e data (t, rep) (name, index, code))"
  shows "header t' = header t" "length (rows t') = length data"
    "\<forall>i<length data. rdate (rows t' ! i) = rdate (rows t ! i) \<and>
       (\<forall>k. cellAt (rows t' ! i) k =
          (case repairCell e data index code i of
             Some v \<Rightarrow> if k = index - 1 then Num v else cellAt (rows t ! i) k
           | None \<Rightarrow> cellAt (rows t ! i) k))"
proof -
  have t': "t' = foldl setValue t
      (List.map_filter (\<lambda>i. map_option (\<lambda>v. (i + 2, index, v)) (repairCell e data index code i))
         [0 ..< length (rows t)])"
    by (simp add: assms(2) fst_fundPass fundUpdatesFor_alt assms(1))
  show "header t' = header t" unfolding t' by (rule header_foldl_setValue)
  show "length (rows t') = length data"
    unfolding t' using assms(1) by (simp add: length_foldl_setValue)
  have r: "\<forall>j<length (rows t). rows t' ! j =
      (if 2 \<le> index then repairRow index (rows t ! j) (repairCell e data index code j)
       else rows t ! j)"
    unfolding t'
    using pass_rows [of "length (rows t)" t index "repairCell e data index code"] by simp
  show "\<forall>i<length data. rdate (rows t' ! i) = rdate (rows t ! i) \<and>
       (\<forall>k. cellAt (rows t' ! i) k =
          (case repairCell e data index code i of
             Some v \<Rightarrow> if k = index - 1 then Num v else cellAt (rows t ! i) k
           | None \<Rightarrow> cellAt (rows t ! i) k))"
  proof (intro allI impI)
    fix i assume i: "i < length data"
    show "rdate (rows t' ! i) = rdate (rows t ! i) \<and>
       (\<forall>k. cellAt (rows t' ! i) k =
          (case repairCell e data index code i of
             Some v \<Rightarrow> if k = index - 1 then Num v else cellAt (rows t ! i) k
           | None \<Rightarrow> cellAt (rows t ! i) k))"
    proof (cases "repairCell e data index code i")
      case None
      then show ?thesis using r i assms(1) by (simp add: repairRow_def)
    next
      case (Some v)
      then have ix: "2 \<le> index" by (rule repairCell_index)
      then have "rows t' ! i = setCellsFrom (index - 1) [Num v] (rows t ! i)"
        using r i assms(1) Some by (simp add: repairRow_def)
      then show ?thesis using Some ix by (simp add: rdate_setCellsFrom cellAt_setCell)
    qed
  qed
qed

text \<open>
  A round keeps the rows in the relation \<open>repairedFrom\<close> to the rows read at the start, and
  settles its own fund while leaving the earlier funds settled.
\<close>

lemma fundPass_inv:
  assumes "repairedFrom data (rows t)" "settled e data done (rows t)"
    and "t' = fst (fundPass e data (t, rep) fi)"
  shows "header t' = header t \<and> repairedFrom data (rows t')
         \<and> settled e data (done @ [fi]) (rows t')"
proof -
  obtain name index code where fi: "fi = (name, index, code)" by (cases fi) auto
  have len: "length (rows t) = length data" using assms(1) by (simp add: repairedFrom_def)
  note c = fundPass_cells [OF len assms(3) [unfolded fi]]
  have rf: "repairedFrom data (rows t')"
    unfolding repairedFrom_def
  proof (intro conjI allI impI)
    show "length (rows t') = length data" by (rule c(2))
  next
    fix i assume i: "i < length data"
    then show "rdate (rows t' ! i) = rdate (data ! i)"
      using c(3) assms(1) by (simp add: repairedFrom_def)
  next
    fix i k assume i: "i < length data" and ne: "cellAt (rows t' ! i) k \<noteq> cellAt (data ! i) k"
    show "cellAt (data ! i) k = Str ''N/A''"
    proof (cases "cellAt (rows t' ! i) k = cellAt (rows t ! i) k")
      case True
      then show ?thesis using ne i assms(1) by (auto simp: repairedFrom_def)
    next
      case False
      with c(3) i obtain v where "repairCell e data index code i = Some v" "k = index - 1"
        by (cases "repairCell e data index code i") (auto split: if_splits)
      then show ?thesis using repairCell_NA by simp
    qed
    show "\<exists>v. cellAt (rows t' ! i) k = Num v"
    proof (cases "cellAt (rows t' ! i) k = cellAt (rows t ! i) k")
      case True
      then show ?thesis using ne i assms(1) by (auto simp: repairedFrom_def)
    next
      case False
      with c(3) i show ?thesis
        by (cases "repairCell e data index code i") (auto split: if_splits)
    qed
  qed
  have keep: "\<exists>v. cellAt (rows t' ! i) k = Num v"
    if "i < length data" "\<exists>v. cellAt (rows t ! i) k = Num v" for i k
    using that c(3) by (cases "repairCell e data index code i") (auto split: if_splits)
  have st: "settled e data (done @ [fi]) (rows t')"
    unfolding settled_def
  proof (intro ballI allI impI)
    fix g i assume g: "g \<in> set (done @ [fi])" and i: "i < length data"
      and r: "repairCell e data (fst (snd g)) (snd (snd g)) i \<noteq> None"
    show "\<exists>v. cellAt (rows t' ! i) (fst (snd g) - 1) = Num v"
    proof (cases "g = fi")
      case True
      then show ?thesis using r c(3) i by (auto simp: fi)
    next
      case False
      then have "g \<in> set done" using g by simp
      then have "\<exists>v. cellAt (rows t ! i) (fst (snd g) - 1) = Num v"
        using assms(2) i r by (auto simp: settled_def)
      then show ?thesis using keep i by simp
    qed
  qed
  show ?thesis using c(1) rf st by simp
qed

lemma fold_inv:
  "repairedFrom data (rows t) \<Longrightarrow> settled e data done (rows t) \<Longrightarrow>
   header (fst (foldl (fundPass e data) (t, rep) fs)) = header t
   \<and> repairedFrom data (rows (fst (foldl (fundPass e data) (t, rep) fs)))
   \<and> settled e data (done @ fs) (rows (fst (foldl (fundPass e data) (t, rep) fs)))"
proof (induction fs arbitrary: t rep "done")
  case Nil
  then show ?case by simp
next
  case (Cons fi fs)
  obtain t' rep' where p: "fundPass e data (t, rep) fi = (t', rep')"
    by (cases "fundPass e data (t, rep) fi")
  then have "t' = fst (fundPass e data (t, rep) fi)" by simp
  from fundPass_inv [OF Cons.prems this]
  have h: "header t' = header t" "repairedFrom data (rows t')"
    "settled e data (done @ [fi]) (rows t')"
    by simp_all
  from Cons.IH [OF h(2) h(3), of rep'] h(1) p show ?case by simp
qed

text \<open>Over rows that a run has repaired, a fund that was settled has nothing left to update.\<close>

lemma second_pass_empty:
  assumes "repairedFrom data rs" "settled e data fs rs" "(name, index, code) \<in> set fs"
  shows "fundUpdatesFor e rs index code = []"
proof -
  have "repairCell e rs index code i = None" if i: "i < length rs" for i
  proof (rule ccontr)
    assume "repairCell e rs index code i \<noteq> None"
    then have na: "cellAt (rs ! i) (index - 1) = Str ''N/A''"
      and tr: "truthy (gapSearch e code (rdate (rs ! i)) [0 ..< 6] None)"
      by (auto simp: repairCell_def split: if_splits)
    have i': "i < length data" using i assms(1) by (simp add: repairedFrom_def)
    have d: "rdate (rs ! i) = rdate (data ! i)" using assms(1) i' by (simp add: repairedFrom_def)
    have "cellAt (data ! i) (index - 1) = Str ''N/A''"
    proof (cases "cellAt (rs ! i) (index - 1) = cellAt (data ! i) (index - 1)")
      case True
      then show ?thesis using na by simp
    next
      case False
      then have "\<exists>v. cellAt (rs ! i) (index - 1) = Num v"
        using assms(1) i' unfolding repairedFrom_def by blast
      then show ?thesis using na by simp
    qed
    then have "repairCell e data index code i \<noteq> None"
      using tr d by (auto simp: repairCell_def truthy_def split: option.splits)
    then have "\<exists>v. cellAt (rs ! i) (index - 1) = Num v"
      using assms(2,3) i' by (force simp: settled_def)
    then show False using na by simp
  qed
  then show ?thesis by (simp add: fundUpdatesFor_alt List.map_filter_def filter_empty_conv)
qed

lemma second_fold:
  "\<forall>fi\<in>set gs. fundUpdatesFor e data (fst (snd fi)) (snd (snd fi)) = [] \<Longrightarrow>
   foldl (fundPass e data) st gs = st"
  by (induction gs arbitrary: st) (auto simp: fundPass_def Let_def split: prod.splits)

lemma repairedFrom_refl: "repairedFrom data data"
  by (simp add: repairedFrom_def)

text \<open>
  Claim C9. A repair that runs to its end keeps the header, the number of rows and their
  dates; a cell that differs afterwards held the text \<open>N/A\<close> before and holds a number now,
  so no cell with a number is touched. Run again on its result with the same provider, the
  repair changes nothing and reports no update.
\<close>

theorem gap_repair_idempotent:
  assumes "fillNAData e (Some s) = Inr (s', rep)"
  shows "header s' = header s
    \<and> length (rows s') = length (rows s)
    \<and> (\<forall>i<length (rows s). rdate (rows s' ! i) = rdate (rows s ! i) \<and>
         (\<forall>k. cellAt (rows s' ! i) k \<noteq> cellAt (rows s ! i) k \<longrightarrow>
              cellAt (rows s ! i) k = Str ''N/A'' \<and> (\<exists>v. cellAt (rows s' ! i) k = Num v)))
    \<and> fillNAData e (Some s') = Inr (s', \<lparr>fundUpdates = [], totalUpdates = 0\<rparr>)"
proof -
  let ?r0 = "\<lparr>fundUpdates = [], totalUpdates = 0\<rparr>"
  from assms have ne: "rows s \<noteq> []"
    and f: "foldl (fundPass e (rows s)) (s, ?r0) (fundColumns (header s)) = (s', rep)"
    by (auto simp: fillNAData_def split: if_splits)
  have "settled e (rows s) [] (rows s)" by (simp add: settled_def)
  from fold_inv [OF repairedFrom_refl this, of ?r0 "fundColumns (header s)"] f
  have h: "header s' = header s" and rf: "repairedFrom (rows s) (rows s')"
    and st: "settled e (rows s) (fundColumns (header s)) (rows s')" by simp_all
  have ne': "rows s' \<noteq> []" using rf ne by (auto simp: repairedFrom_def)
  have "\<forall>fi\<in>set (fundColumns (header s')).
          fundUpdatesFor e (rows s') (fst (snd fi)) (snd (snd fi)) = []"
  proof
    fix fi assume "fi \<in> set (fundColumns (header s'))"
    then have "(fst fi, fst (snd fi), snd (snd fi)) \<in> set (fundColumns (header s))"
      by (simp add: h)
    from second_pass_empty [OF rf st this]
    show "fundUpdatesFor e (rows s') (fst (snd fi)) (snd (snd fi)) = []" .
  qed
  from second_fold [OF this] have "fillNAData e (Some s') = Inr (s', ?r0)"
    using ne' by (simp add: fillNAData_def)
  then show ?thesis using h rf by (simp add: repairedFrom_def)
qed

subsection \<open>A repair of the example sheet\<close>

lemma fundColumns_headerRow:
  "fundColumns headerRow =
     [(''ICICI Pru BA'', 2, ''120377''), (''HDFC Mid-Cap'', 3, ''118989''),
      (''Nippon Small Cap'', 4, ''118778''), (''UTI Nifty 50'', 5, ''120716''),
      (''PPFAS Flexi Cap'', 6, ''122639'')]"
  by (simp add: fundColumns_def headerRow_def fundNames_def fundsToTrack_def List.map_filter_def)

lemma demoParse_simps:
  "demoParse ''I'' = None" "demoParse [] = None" "demoParse ''F'' = None"
  "demoParse ''80.25'' = Some 80.25"
  by (simp_all add: demoParse_def)

lemma gap_ppfas: "gapSearch envB ''122639'' (rdate partialRow) [0 ..< 6] None = Some 80.25"
  by (simp add: upt_rec envB_def fetchB_def demoMinusDays_def demoBack_def demoDays_def
       partialRow_def dec10_def dec11_def dec12_def dec13_def dec14_def dec15_def fullReport_def
       partialReport_def reportLine_def cal_defs Let_def extractNav_def scanParts_def truthy_def
       demoParse_simps)

lemma cells_partial:
  "cellAt partialRow (Suc 0) = Num 70.5" "cellAt partialRow 2 = Num 180.25"
  "cellAt partialRow 3 = Num 160" "cellAt partialRow 4 = Num 150.5"
  "cellAt partialRow 5 = Str ''N/A''"
  by (simp_all add: cellAt_def partialRow_def)

lemma updates_partial:
  "fundUpdatesFor envB [partialRow] 2 ''120377'' = []"
  "fundUpdatesFor envB [partialRow] 3 ''118989'' = []"
  "fundUpdatesFor envB [partialRow] 4 ''118778'' = []"
  "fundUpdatesFor envB [partialRow] 5 ''120716'' = []"
  "fundUpdatesFor envB [partialRow] 6 ''122639'' = [(2, 6, 80.25)]"
  by (simp_all add: fundUpdatesFor_def cells_partial gap_ppfas truthy_def)

lemma first_repair:
  "fillNAData envB (Some naSheet) =
     Inr (mendedSheet, \<lparr>fundUpdates = [(''PPFAS Flexi Cap'', 1)], totalUpdates = 1\<rparr>)"
proof -
  have r: "rows naSheet = [partialRow]" "header naSheet = headerRow"
    by (simp_all add: naSheet_def)
  have m: "naSheet\<lparr>rows := [setCellsFrom 5 [Num (321 / 4)] partialRow]\<rparr> = mendedSheet"
    by (simp add: naSheet_def mendedSheet_def setCellsFrom_def partialRow_def layout Let_def)
  show ?thesis
    by (simp add: fillNAData_def r fundColumns_headerRow fundPass_def updates_partial
          setValue_def m)
qed

theorem gap_repair_idempotent_witness:
  "fillNAData envB (Some naSheet) =
     Inr (mendedSheet, \<lparr>fundUpdates = [(''PPFAS Flexi Cap'', 1)], totalUpdates = 1\<rparr>)
   \<and> fillNAData envB (Some mendedSheet) =
       Inr (mendedSheet, \<lparr>fundUpdates = [], totalUpdates = 0\<rparr>)"
  using gap_repair_idempotent [OF first_repair] first_repair by simp

end
